theory Spec2Isabelle
  imports Complex_Main "HOL-Library.Multiset"
begin

section \<open>JavaScript strings and regular expressions\<close>

text \<open>
  A JavaScript string is a sequence of UTF-16 code units, and every index the program
  stores (\<open>match.index\<close>, \<open>startIndex\<close>, \<open>endIndex\<close>) counts code units. A string is
  modelled as a \<^typ>\<open>string\<close> whose characters stand for code units below 256.
\<close>

definition slice :: "string \<Rightarrow> nat \<Rightarrow> nat \<Rightarrow> string" where
  \<comment> \<open>\<open>s.slice(a, b)\<close> for non-negative integers: clamped to the length, empty when \<open>b \<le> a\<close>.\<close>
  "slice s a b = take (b - a) (drop a s)"

definition slice_from :: "string \<Rightarrow> nat \<Rightarrow> string" where
  \<comment> \<open>\<open>s.slice(a)\<close>\<close>
  "slice_from s a = drop a s"

definition is_space :: "char \<Rightarrow> bool" where
  \<comment> \<open>\<open>\s\<close>: tab, line feed, vertical tab, form feed, carriage return, space, no-break space\<close>
  "is_space x = (x \<in> set [CHR 0x09, CHR 0x0A, CHR 0x0B, CHR 0x0C, CHR 0x0D, CHR 0x20, CHR 0xA0])"

definition is_word :: "char \<Rightarrow> bool" where
  \<comment> \<open>\<open>\w\<close> is \<open>[A-Za-z0-9_]\<close>\<close>
  "is_word x = (x \<in> set ''ABCDEFGHIJKLMNOPQRSTUVWXYZabcdefghijklmnopqrstuvwxyz0123456789_'')"

definition is_line_terminator :: "char \<Rightarrow> bool" where
  "is_line_terminator x = (x = CHR 0x0A \<or> x = CHR 0x0D)"

type_synonym captures = "(nat \<times> string) list"

datatype regex =
    Cls "char \<Rightarrow> bool"
  | Eps
  | Seq regex regex
  | Alt regex regex
  | Star regex
  | Lazy regex
  | Grp nat regex
  | Eol

text \<open>
  The matcher is the backtracking matcher of the language specification, written with
  continuations: \<open>rx r k s c\<close> matches \<open>r\<close> at the front of \<open>s\<close> and hands the rest of the
  input and the captures to \<open>k\<close>; the first alternative (in priority order) on which the
  continuation succeeds is the result. \<open>Star\<close> is the greedy \<open>*\<close>, \<open>Lazy\<close> is \<open>*?\<close>; an
  iteration that consumes nothing is rejected, as the specification demands. \<open>Eol\<close> is
  \<open>$\<close> under the \<open>m\<close> flag. None of the program's patterns looks behind the current
  position, so a match at index \<open>i\<close> depends on the text from \<open>i\<close> on only.
\<close>

type_synonym 'a cont = "string \<Rightarrow> captures \<Rightarrow> 'a option"

primrec star_greedy :: "('a cont \<Rightarrow> 'a cont) \<Rightarrow> 'a cont \<Rightarrow> nat \<Rightarrow> 'a cont" where
  "star_greedy m k 0 s c = k s c"
| "star_greedy m k (Suc n) s c =
     (case m (\<lambda>t c'. if length t < length s then star_greedy m k n t c' else None) s c of
        Some r \<Rightarrow> Some r
      | None \<Rightarrow> k s c)"

primrec star_lazy :: "('a cont \<Rightarrow> 'a cont) \<Rightarrow> 'a cont \<Rightarrow> nat \<Rightarrow> 'a cont" where
  "star_lazy m k 0 s c = k s c"
| "star_lazy m k (Suc n) s c =
     (case k s c of
        Some r \<Rightarrow> Some r
      | None \<Rightarrow> m (\<lambda>t c'. if length t < length s then star_lazy m k n t c' else None) s c)"

primrec rx :: "regex \<Rightarrow> 'a cont \<Rightarrow> 'a cont" where
  "rx (Cls p) k s c = (case s of [] \<Rightarrow> None | x # t \<Rightarrow> if p x then k t c else None)"
| "rx Eps k s c = k s c"
| "rx (Seq a b) k s c = rx a (rx b k) s c"
| "rx (Alt a b) k s c = (case rx a k s c of Some r \<Rightarrow> Some r | None \<Rightarrow> rx b k s c)"
| "rx (Star a) k s c = star_greedy (rx a) k (length s) s c"
| "rx (Lazy a) k s c = star_lazy (rx a) k (length s) s c"
| "rx (Grp n a) k s c = rx a (\<lambda>t c'. k t ((n, take (length s - length t) s) # c')) s c"
| "rx Eol k s c = (if s = [] \<or> is_line_terminator (hd s) then k s c else None)"

definition lit :: "string \<Rightarrow> regex" where
  "lit w = foldr (\<lambda>x r. Seq (Cls (\<lambda>y. y = x)) r) w Eps"

definition seqs :: "regex list \<Rightarrow> regex" where
  "seqs rs = foldr Seq rs Eps"

definition plus :: "regex \<Rightarrow> regex" where
  "plus r = Seq r (Star r)"

definition opt :: "regex \<Rightarrow> regex" where
  "opt r = Alt r Eps"

definition none_of :: "string \<Rightarrow> regex" where
  "none_of cs = Cls (\<lambda>x. x \<notin> set cs)"

definition ws :: regex where
  "ws = Cls is_space"

definition word :: regex where
  "word = Cls is_word"

definition any_char :: regex where
  \<comment> \<open>\<open>[\s\S]\<close> and \<open>[^]\<close>\<close>
  "any_char = Cls (\<lambda>x. True)"

definition dot :: regex where
  \<comment> \<open>\<open>.\<close> without the \<open>s\<close> flag\<close>
  "dot = Cls (\<lambda>x. \<not> is_line_terminator x)"

record rmatch =
  index :: nat
  text0 :: string
  groups :: captures

definition match_here :: "regex \<Rightarrow> string \<Rightarrow> (string \<times> captures) option" where
  "match_here r s = rx r (\<lambda>t c. Some (take (length s - length t) s, c)) s []"

fun search :: "regex \<Rightarrow> nat \<Rightarrow> string \<Rightarrow> rmatch option" where
  "search r i [] =
     (case match_here r [] of
        Some (w, c) \<Rightarrow> Some \<lparr>index = i, text0 = w, groups = c\<rparr>
      | None \<Rightarrow> None)"
| "search r i (x # s) =
     (case match_here r (x # s) of
        Some (w, c) \<Rightarrow> Some \<lparr>index = i, text0 = w, groups = c\<rparr>
      | None \<Rightarrow> search r (Suc i) s)"

definition exec :: "regex \<Rightarrow> string \<Rightarrow> nat \<Rightarrow> rmatch option" where
  \<comment> \<open>\<open>re.exec(s)\<close> of a global pattern whose \<open>lastIndex\<close> is \<open>from\<close>: the leftmost match
      at or after \<open>from\<close>, or \<open>null\<close>\<close>
  "exec r s from = (if length s < from then None else search r from (drop from s))"

definition group :: "rmatch \<Rightarrow> nat \<Rightarrow> string option" where
  \<comment> \<open>\<open>match[n]\<close>; \<open>None\<close> is \<open>undefined\<close>\<close>
  "group m n = map_of (groups m) n"

definition trim :: "string \<Rightarrow> string" where
  \<comment> \<open>\<open>s.trim()\<close> strips the characters of \<open>\s\<close> from both ends\<close>
  "trim s = rev (dropWhile is_space (rev (dropWhile is_space s)))"

subsection \<open>What a match can be\<close>

text \<open>
  Whatever the pattern, the continuation of a successful match ran on a rest of the input that
  is no longer than the input.
\<close>

lemma star_greedy_cont:
  assumes body: "\<And>k s c res. m k s c = Some res \<Longrightarrow> \<exists>t c'. k t c' = Some res \<and> length t \<le> length s"
  shows "star_greedy m k n s c = Some res \<Longrightarrow> \<exists>t c'. k t c' = Some res \<and> length t \<le> length s"
proof (induction n arbitrary: s c)
  case 0
  then show ?case by auto
next
  case (Suc n)
  show ?case
  proof (cases "m (\<lambda>t c'. if length t < length s then star_greedy m k n t c' else None) s c")
    case None
    with Suc.prems show ?thesis by auto
  next
    case (Some r)
    with Suc.prems have "r = res" by simp
    from body[OF Some] obtain t c' where
      "(if length t < length s then star_greedy m k n t c' else None) = Some r" by blast
    then have lt: "length t < length s" and st: "star_greedy m k n t c' = Some r"
      by (auto split: if_splits)
    from Suc.IH[of t c'] st \<open>r = res\<close> obtain u d where "k u d = Some res" "length u \<le> length t"
      by blast
    with lt show ?thesis by (meson le_trans less_imp_le)
  qed
qed

lemma star_lazy_cont:
  assumes body: "\<And>k s c res. m k s c = Some res \<Longrightarrow> \<exists>t c'. k t c' = Some res \<and> length t \<le> length s"
  shows "star_lazy m k n s c = Some res \<Longrightarrow> \<exists>t c'. k t c' = Some res \<and> length t \<le> length s"
proof (induction n arbitrary: s c)
  case 0
  then show ?case by auto
next
  case (Suc n)
  show ?case
  proof (cases "k s c")
    case (Some r)
    with Suc.prems show ?thesis by auto
  next
    case None
    with Suc.prems have
      "m (\<lambda>t c'. if length t < length s then star_lazy m k n t c' else None) s c = Some res"
      by simp
    from body[OF this] obtain t c' where
      "(if length t < length s then star_lazy m k n t c' else None) = Some res" by blast
    then have lt: "length t < length s" and st: "star_lazy m k n t c' = Some res"
      by (auto split: if_splits)
    from Suc.IH[OF st] obtain u d where "k u d = Some res" "length u \<le> length t"
      by blast
    with lt show ?thesis by (meson le_trans less_imp_le)
  qed
qed

lemma rx_cont:
  "rx r k s c = Some res \<Longrightarrow> \<exists>t c'. k t c' = Some res \<and> length t \<le> length s"
proof (induction r arbitrary: k s c res)
  case (Cls p)
  then show ?case by (cases s) (auto split: if_splits)
next
  case Eps
  then show ?case by auto
next
  case (Seq a b)
  from Seq.prems have "rx a (rx b k) s c = Some res" by simp
  from Seq.IH(1)[OF this] obtain t c' where "rx b k t c' = Some res" "length t \<le> length s"
    by blast
  with Seq.IH(2)[of k t c'] show ?case by (meson le_trans)
next
  case (Alt a b)
  then show ?case by (auto split: option.splits)
next
  case (Star a)
  then show ?case using star_greedy_cont[of "rx a" k "length s" s c res] by auto
next
  case (Lazy a)
  then show ?case using star_lazy_cont[of "rx a" k "length s" s c res] by auto
next
  case (Grp n a)
  from Grp.prems Grp.IH[of "\<lambda>t c'. k t ((n, take (length s - length t) s) # c')" s c]
  show ?case by auto
next
  case Eol
  then show ?case by (auto split: if_splits)
qed

primrec consumes :: "regex \<Rightarrow> bool" where
  \<comment> \<open>a check on the shape of the pattern: every match has at least one character\<close>
  "consumes (Cls p) = True"
| "consumes Eps = False"
| "consumes (Seq a b) = (consumes a \<or> consumes b)"
| "consumes (Alt a b) = (consumes a \<and> consumes b)"
| "consumes (Star a) = False"
| "consumes (Lazy a) = False"
| "consumes (Grp n a) = consumes a"
| "consumes Eol = False"

lemma rx_consumes:
  "consumes r \<Longrightarrow> rx r k s c = Some res \<Longrightarrow> \<exists>t c'. k t c' = Some res \<and> length t < length s"
proof (induction r arbitrary: k s c res)
  case (Cls p)
  then show ?case by (cases s) (auto split: if_splits)
next
  case (Seq a b)
  from Seq.prems have run: "rx a (rx b k) s c = Some res" by simp
  show ?case
  proof (cases "consumes a")
    case True
    from Seq.IH(1)[OF True run] obtain t c' where "rx b k t c' = Some res" "length t < length s"
      by blast
    with rx_cont[of b k t c' res] show ?thesis by (meson le_less_trans)
  next
    case False
    with Seq.prems have cb: "consumes b" by simp
    from rx_cont[OF run] obtain t c' where "rx b k t c' = Some res" "length t \<le> length s"
      by blast
    with Seq.IH(2)[OF cb, of k t c' res] show ?thesis by (meson less_le_trans)
  qed
next
  case (Alt a b)
  then show ?case by (auto split: option.splits)
next
  case (Grp n a)
  from Grp.prems Grp.IH[of "\<lambda>t c'. k t ((n, take (length s - length t) s) # c')" s c res]
  show ?case by auto
qed simp_all

lemma match_here_length:
  "match_here r s = Some (w, c) \<Longrightarrow> length w \<le> length s"
  unfolding match_here_def by (drule rx_cont) auto

lemma match_here_prefix:
  "match_here r s = Some (w, c) \<Longrightarrow> w = take (length w) s"
  unfolding match_here_def by (drule rx_cont) auto

lemma match_here_consumes:
  "consumes r \<Longrightarrow> match_here r s = Some (w, c) \<Longrightarrow> w \<noteq> []"
  unfolding match_here_def by (drule rx_consumes) auto

lemma search_bounds:
  "search r i s = Some m \<Longrightarrow> i \<le> index m \<and> index m + length (text0 m) \<le> i + length s"
proof (induction s arbitrary: i)
  case Nil
  then show ?case by (auto split: option.splits dest: match_here_length)
next
  case (Cons x s)
  show ?case
  proof (cases "match_here r (x # s)")
    case None
    with Cons.prems have "search r (Suc i) s = Some m" by simp
    from Cons.IH[OF this] show ?thesis by simp
  next
    case (Some a)
    then obtain w c where "match_here r (x # s) = Some (w, c)" by (cases a) auto
    with Cons.prems match_here_length[OF this] show ?thesis by auto
  qed
qed

lemma search_text:
  "search r i s = Some m \<Longrightarrow> text0 m = take (length (text0 m)) (drop (index m - i) s)"
proof (induction s arbitrary: i)
  case Nil
  then show ?case by (auto split: option.splits dest: match_here_length)
next
  case (Cons x s)
  show ?case
  proof (cases "match_here r (x # s)")
    case None
    with Cons.prems have run: "search r (Suc i) s = Some m" by simp
    from search_bounds[OF run] have "index m - i = Suc (index m - Suc i)" by arith
    with Cons.IH[OF run] show ?thesis by simp
  next
    case (Some a)
    then obtain w c where mh: "match_here r (x # s) = Some (w, c)" by (cases a) auto
    with Cons.prems have "index m = i" "text0 m = w" by auto
    with match_here_prefix[OF mh] show ?thesis by simp
  qed
qed

lemma search_consumes:
  "consumes r \<Longrightarrow> search r i s = Some m \<Longrightarrow> text0 m \<noteq> []"
proof (induction s arbitrary: i)
  case Nil
  then show ?case by (auto split: option.splits dest: match_here_consumes)
next
  case (Cons x s)
  then show ?case by (auto split: option.splits dest: match_here_consumes)
qed

lemma exec_bounds:
  "exec r s from = Some m \<Longrightarrow> from \<le> index m \<and> index m + length (text0 m) \<le> length s"
  unfolding exec_def by (auto split: if_splits dest!: search_bounds)

lemma exec_text:
  "exec r s from = Some m \<Longrightarrow> text0 m = slice s (index m) (index m + length (text0 m))"
proof -
  assume a: "exec r s from = Some m"
  then have le: "from \<le> length s" and run: "search r from (drop from s) = Some m"
    by (auto simp: exec_def split: if_splits)
  from search_bounds[OF run] have "from \<le> index m" by simp
  with search_text[OF run] show ?thesis by (simp add: slice_def)
qed

lemma exec_consumes:
  "consumes r \<Longrightarrow> exec r s from = Some m \<Longrightarrow> text0 m \<noteq> []"
  unfolding exec_def by (auto split: if_splits dest: search_consumes)

subsection \<open>Global matching: \<open>matchAll\<close> and \<open>replace\<close>\<close>

function match_all :: "regex \<Rightarrow> string \<Rightarrow> nat \<Rightarrow> rmatch list" where
  \<comment> \<open>\<open>Array.from(s.matchAll(re))\<close> of a global pattern: after an empty match the search
      resumes one code unit further\<close>
  "match_all r s from =
     (case exec r s from of
        None \<Rightarrow> []
      | Some m \<Rightarrow>
          (let e = index m + length (text0 m)
           in m # match_all r s (if text0 m = [] then Suc e else e)))"
  by pat_completeness auto
termination
proof (relation "measure (\<lambda>(r, s, from). Suc (length s) - from)")
  show "wf (measure (\<lambda>(r, s, from). Suc (length s) - from))" by simp
next
  fix r :: regex and s :: string and "from" :: nat and m :: rmatch and e :: nat
  assume run: "exec r s from = Some m" and e: "e = index m + length (text0 m)"
  from exec_bounds[OF run] have "from \<le> index m" "index m + length (text0 m) \<le> length s"
    by simp_all
  then show "((r, s, if text0 m = [] then Suc e else e), (r, s, from))
      \<in> measure (\<lambda>(r, s, from). Suc (length s) - from)"
    using e by (cases "text0 m") auto
qed

declare match_all.simps [simp del]

function replace_all :: "regex \<Rightarrow> string \<Rightarrow> string \<Rightarrow> nat \<Rightarrow> string" where
  \<comment> \<open>\<open>s.replace(re, rep)\<close> of a global pattern and a replacement without \<open>$\<close>, from
      position \<open>from\<close> on: the text between the matches is kept\<close>
  "replace_all r rep s from =
     (case exec r s from of
        None \<Rightarrow> slice_from s from
      | Some m \<Rightarrow>
          (let e = index m + length (text0 m)
           in slice s from (index m) @ rep @
              (if text0 m = []
               then slice s e (Suc e) @ replace_all r rep s (Suc e)
               else replace_all r rep s e)))"
  by pat_completeness auto
termination
proof (relation "measure (\<lambda>(r, rep, s, from). Suc (length s) - from)")
  show "wf (measure (\<lambda>(r, rep, s, from). Suc (length s) - from))" by simp
next
  fix r :: regex and rep s :: string and "from" :: nat and m :: rmatch and e :: nat
  assume run: "exec r s from = Some m" and e: "e = index m + length (text0 m)"
    and empty: "text0 m = []"
  from exec_bounds[OF run] have "from \<le> index m" "index m + length (text0 m) \<le> length s"
    by simp_all
  then show "((r, rep, s, Suc e), (r, rep, s, from))
      \<in> measure (\<lambda>(r, rep, s, from). Suc (length s) - from)"
    using e empty by auto
next
  fix r :: regex and rep s :: string and "from" :: nat and m :: rmatch and e :: nat
  assume run: "exec r s from = Some m" and e: "e = index m + length (text0 m)"
    and nonempty: "text0 m \<noteq> []"
  from exec_bounds[OF run] have "from \<le> index m" "index m + length (text0 m) \<le> length s"
    by simp_all
  then show "((r, rep, s, e), (r, rep, s, from))
      \<in> measure (\<lambda>(r, rep, s, from). Suc (length s) - from)"
    using e nonempty by (cases "text0 m") auto
qed

declare replace_all.simps [simp del]

section \<open>Values, errors and files\<close>

text \<open>
  The values the program handles without knowing their type: the arguments of
  \<open>extractModuleContext\<close> and what \<open>JSON.parse\<close> returns. A number is the rational it
  denotes (the not-a-number and the infinities are not values of the model); an object is
  the list of its properties in insertion order, each key once.
\<close>

datatype jsval =
    JUndefined
  | JNull
  | JBool bool
  | JNum rat
  | JStr string
  | JArr "jsval list"
  | JObj "(string \<times> jsval) list"

fun truthy :: "jsval \<Rightarrow> bool" where
  \<comment> \<open>the conversion to a boolean of \<open>if (v)\<close>, \<open>!v\<close>, \<open>v ? a : b\<close> and \<open>filter\<close>; a number
      is falsy when it rounds to the double zero\<close>
  "truthy JUndefined = False"
| "truthy JNull = False"
| "truthy (JBool b) = b"
| "truthy (JNum q) = (1 / 2 ^ 1075 < \<bar>q\<bar>)"
| "truthy (JStr s) = (s \<noteq> [])"
| "truthy (JArr xs) = True"
| "truthy (JObj kvs) = True"

fun get_prop :: "jsval \<Rightarrow> string \<Rightarrow> jsval" where
  \<comment> \<open>\<open>v.key\<close> for an own data property of a parsed object; a key that is not there reads
      as \<open>undefined\<close>\<close>
  "get_prop (JObj kvs) key = (case map_of kvs key of Some v \<Rightarrow> v | None \<Rightarrow> JUndefined)"
| "get_prop v key = JUndefined"

datatype error =
    Error string
  | TypeError string
  | SyntaxError string
  | SystemError string

fun message :: "error \<Rightarrow> string" where
  "message (Error m) = m"
| "message (TypeError m) = m"
| "message (SyntaxError m) = m"
| "message (SystemError m) = m"

type_synonym filesystem = "string \<rightharpoonup> string"

definition readFile :: "filesystem \<Rightarrow> string \<Rightarrow> error + string" where
  \<comment> \<open>\<open>fs.readFile(path, 'utf-8')\<close>: rejects when there is no such file\<close>
  "readFile files path =
     (case files path of
        None \<Rightarrow> Inl (SystemError (''ENOENT: no such file or directory, open '' @ [CHR 0x27] @ path @ [CHR 0x27]))
      | Some content \<Rightarrow> Inr content)"

definition writeFile :: "filesystem \<Rightarrow> string \<Rightarrow> string \<Rightarrow> filesystem" where
  \<comment> \<open>\<open>fs.writeFile(path, content, 'utf-8')\<close> creates the file or replaces its content\<close>
  "writeFile files path content = files(path \<mapsto> content)"

definition truncate_num :: "rat \<Rightarrow> int" where
  \<comment> \<open>the conversion of a number to an integer, towards zero\<close>
  "truncate_num q = (if q < 0 then - \<lfloor>- q\<rfloor> else \<lfloor>q\<rfloor>)"

definition slice_to_num :: "string \<Rightarrow> rat \<Rightarrow> string" where
  \<comment> \<open>\<open>s.slice(0, q)\<close> for any number: a negative end counts from the end of the string\<close>
  "slice_to_num s q =
     (let n = truncate_num q;
          len = int (length s);
          to = (if n < 0 then max (len + n) 0 else min n len)
      in take (nat to) s)"

section \<open>The context extractor\<close>

definition quote_or_space :: regex where
  \<comment> \<open>the class of a double quote, a single quote and \<open>\s\<close>\<close>
  "quote_or_space = Cls (\<lambda>x. x = CHR 0x22 \<or> x = CHR 0x27 \<or> is_space x)"

definition importRegex :: regex where
  "importRegex = seqs
     [lit ''import'',
      opt (seqs [Star quote_or_space,
                 plus (Cls (\<lambda>x. is_word x \<or> x \<in> set [CHR ''*'', CHR ''$'', CHR ''{'', CHR ''}'',
                                   CHR 0x0A, CHR 0x0D, CHR 0x09, CHR '','', CHR '' ''])),
                 lit ''from'', Star ws]),
      quote_or_space, quote_or_space,
      plus (Cls (\<lambda>x. is_word x \<or> x \<in> set [CHR ''@'', CHR ''_'', CHR ''-'', CHR ''.'', CHR ''/''])),
      quote_or_space, Lazy dot, Eol]"

definition declRegex :: regex where
  "declRegex = seqs
     [Alt (lit ''const'') (Alt (lit ''let'') (Alt (lit ''var'') (Alt (lit ''type'') (lit ''interface'')))),
      plus ws, plus word, Star ws,
      Alt (seqs [lit ''='', Star ws,
                 Alt (seqs [lit ''{'', Star (none_of ''}''), lit ''}'']) (plus (none_of '';''))])
          (Alt (seqs [lit ''{'', Star (none_of ''}''), lit ''}'']) (plus (none_of '';{''))),
      opt (lit '';'')]"

record moduleContext =
  imports' :: "string list"
  declarations :: "string list"
  fullContext :: string

definition extractModuleContext :: "jsval \<Rightarrow> jsval \<Rightarrow> error + moduleContext" where
  \<comment> \<open>Nothing in the \<open>try\<close> block throws once the two type checks have passed, so its
      \<open>catch\<close> has no branch here.\<close>
  "extractModuleContext content functionEndIndex =
     (case (content, functionEndIndex) of
        (JStr s, JNum q) \<Rightarrow>
          (let contextCode = slice_to_num s q
           in Inr \<lparr>imports' = map (\<lambda>m. trim (text0 m)) (match_all importRegex contextCode 0),
                   declarations = map (\<lambda>m. trim (text0 m)) (match_all declRegex contextCode 0),
                   fullContext = contextCode\<rparr>)
      | _ \<Rightarrow> Inl (Error ''Invalid arguments: content must be string and functionEndIndex must be number''))"

section \<open>The text scanner\<close>

record functionRecord =
  name :: "string option"
  code :: string
  preText :: string
  startIndex :: nat
  endIndex :: nat

record functionRecordCtx = functionRecord +
  moduleContext :: moduleContext

record 'f fileContent =
  functions' :: "'f list"
  postText :: string
  originalContent :: string

subsection \<open>The older variant\<close>

definition functionRegex_old :: regex where
  "functionRegex_old = seqs
     [lit ''function'', plus ws, Grp 1 (plus word), Star ws, lit ''('', Star (none_of '')''),
      lit '')'', Star ws, lit ''{'', Star (none_of ''}''), lit ''}'']"

text \<open>
  The \<open>while\<close> loop of \<open>extractFunctions\<close>. The pattern's own \<open>lastIndex\<close> and the local
  variable \<open>lastIndex\<close> both start at 0 and are both set to the end of each match, so one
  argument stands for the two. A match that does not end after \<open>lastIndex\<close> would be returned
  by \<open>exec\<close> again and again: the loop would never end, which is the result \<open>None\<close>.
\<close>

function scan_loop_old ::
  "string \<Rightarrow> nat \<Rightarrow> functionRecord list \<Rightarrow> (functionRecord list \<times> nat) option" where
  "scan_loop_old content lastIndex functions =
     (case exec functionRegex_old content lastIndex of
        None \<Rightarrow> Some (functions, lastIndex)
      | Some m \<Rightarrow>
          (let preText = slice content lastIndex (index m);
               lastIndex' = index m + length (text0 m)
           in if lastIndex' \<le> lastIndex then None
              else scan_loop_old content lastIndex'
                     (functions @ [\<lparr>name = group m 1, code = text0 m, preText = preText,
                                    startIndex = index m, endIndex = lastIndex'\<rparr>])))"
  by pat_completeness auto
termination
proof (relation "measure (\<lambda>(content, lastIndex, functions). length content - lastIndex)")
  show "wf (measure (\<lambda>(content, lastIndex, functions). length content - lastIndex))" by simp
next
  fix content :: string and lastIndex :: nat and fns :: "functionRecord list"
    and m :: rmatch and pre :: string and e :: nat
  assume run: "exec functionRegex_old content lastIndex = Some m"
    and e: "e = index m + length (text0 m)" and adv: "\<not> e \<le> lastIndex"
  from exec_bounds[OF run] e have "e \<le> length content" by simp
  with adv show "((content, e,
        fns @ [\<lparr>name = group m 1, code = text0 m, preText = pre,
                       startIndex = index m, endIndex = e\<rparr>]),
       (content, lastIndex, fns))
      \<in> measure (\<lambda>(content, lastIndex, functions). length content - lastIndex)"
    by simp
qed

declare scan_loop_old.simps [simp del]

definition scanContent_old :: "string \<Rightarrow> functionRecord fileContent option" where
  "scanContent_old content =
     (case scan_loop_old content 0 [] of
        None \<Rightarrow> None
      | Some (functions, lastIndex) \<Rightarrow>
          Some \<lparr>functions' = functions, postText = slice_from content lastIndex,
                originalContent = content\<rparr>)"

definition extractFunctions_old ::
  "filesystem \<Rightarrow> string \<Rightarrow> (error + functionRecord fileContent) option" where
  "extractFunctions_old files filePath =
     (case readFile files filePath of
        Inl e \<Rightarrow> Some (Inl e)
      | Inr content \<Rightarrow> map_option Inr (scanContent_old content))"

subsection \<open>The current variant\<close>

definition functionRegex :: regex where
  "functionRegex = seqs
     [Star (seqs [lit ''/**'', Lazy any_char, lit ''*/'', Star ws]),
      opt (seqs [lit ''async'', plus ws]),
      Alt (seqs [lit ''function'', plus ws, Grp 1 (plus word)])
          (seqs [lit ''const'', plus ws, Grp 2 (plus word), Star ws, lit ''='',
                 opt (seqs [Star ws, lit ''async'']), Star ws,
                 Alt (lit ''function'')
                     (seqs [lit ''('', Star (none_of '')''), lit '')'', Star ws, lit ''=>''])]),
      Star ws, lit ''('', Star (none_of '')''), lit '')'', Star ws, lit ''{'',
      Star (Alt (seqs [lit ''{'', Star (none_of ''}''), lit ''}'']) (none_of ''}'')),
      lit ''}'']"

definition refactorCommentRegex :: regex where
  "refactorCommentRegex = seqs
     [lit ''/**'', Star ws, lit [CHR 0x0A], Star ws, lit ''*'', Star ws, lit ''REFACTOR:'',
      Star (none_of ''*''), lit ''*/'']"

definition functionName :: "rmatch \<Rightarrow> string option" where
  \<comment> \<open>\<open>match[1] || match[2]\<close>\<close>
  "functionName m =
     (case group m 1 of
        Some n \<Rightarrow> if n \<noteq> [] then Some n else group m 2
      | None \<Rightarrow> group m 2)"

definition lastRefactorComment :: "string \<Rightarrow> string" where
  \<comment> \<open>\<open>refactorComments[refactorComments.length - 1] || ''\<close>\<close>
  "lastRefactorComment gap =
     (let refactorComments = map text0 (match_all refactorCommentRegex gap 0)
      in if refactorComments = [] then [] else last refactorComments)"

function scan_loop ::
  "string \<Rightarrow> nat \<Rightarrow> functionRecordCtx list \<Rightarrow> (error + functionRecordCtx list \<times> nat) option" where
  "scan_loop content lastIndex functions =
     (case exec functionRegex content lastIndex of
        None \<Rightarrow> Some (Inr (functions, lastIndex))
      | Some m \<Rightarrow>
          (let preText = slice content lastIndex (index m);
               lastIndex' = index m + length (text0 m)
           in case extractModuleContext (JStr content) (JNum (of_nat (index m))) of
                Inl e \<Rightarrow> Some (Inl e)
              | Inr ctx \<Rightarrow>
                  if lastIndex' \<le> lastIndex then None
                  else scan_loop content lastIndex'
                         (functions @ [\<lparr>name = functionName m, code = text0 m,
                                        preText = lastRefactorComment preText,
                                        startIndex = index m, endIndex = lastIndex',
                                        moduleContext = ctx\<rparr>])))"
  by pat_completeness auto
termination
proof (relation "measure (\<lambda>(content, lastIndex, functions). length content - lastIndex)")
  show "wf (measure (\<lambda>(content, lastIndex, functions). length content - lastIndex))" by simp
next
  fix content :: string and lastIndex :: nat and fns :: "functionRecordCtx list"
    and m :: rmatch and pre :: string and e :: nat and ctx :: moduleContext
  assume run: "exec functionRegex content lastIndex = Some m"
    and e: "e = index m + length (text0 m)" and adv: "\<not> e \<le> lastIndex"
  from exec_bounds[OF run] e have "e \<le> length content" by simp
  with adv show "((content, e,
        fns @ [\<lparr>name = functionName m, code = text0 m, preText = lastRefactorComment pre,
                       startIndex = index m, endIndex = e, moduleContext = ctx\<rparr>]),
       (content, lastIndex, fns))
      \<in> measure (\<lambda>(content, lastIndex, functions). length content - lastIndex)"
    by simp
qed

declare scan_loop.simps [simp del]

definition scanContent :: "string \<Rightarrow> (error + functionRecordCtx fileContent) option" where
  \<comment> \<open>the body of \<open>extractFunctions\<close> after the file has been read, with its \<open>catch\<close>\<close>
  "scanContent content =
     (case scan_loop content 0 [] of
        None \<Rightarrow> None
      | Some (Inl e) \<Rightarrow> Some (Inl (Error (''Failed to extract functions: '' @ message e)))
      | Some (Inr (functions, lastIndex)) \<Rightarrow>
          Some (Inr \<lparr>functions' = sort_key startIndex functions,
                     postText = slice_from content lastIndex,
                     originalContent = content\<rparr>))"

definition extractFunctions ::
  "filesystem \<Rightarrow> string \<Rightarrow> (error + functionRecordCtx fileContent) option" where
  "extractFunctions files filePath =
     (case readFile files filePath of
        Inl e \<Rightarrow> Some (Inl (Error (''Failed to extract functions: '' @ message e)))
      | Inr content \<Rightarrow> scanContent content)"



section \<open>The prompt builder\<close>

definition DEFAULT_ANALYSIS_PROMPT :: string where
  \<open>DEFAULT_ANALYSIS_PROMPT =
     ''Analyze this function in the context of its module and suggest safe refactoring if needed.\<newline>'' @
     ''Consider:\<newline>'' @
     ''\<newline>'' @
     ''1. Module Context:\<newline>'' @
     ''- Available imports and dependencies\<newline>'' @
     ''- Module-level variables and configurations\<newline>'' @
     ''- Related utility functions and helpers\<newline>'' @
     ''- Type definitions and interfaces\<newline>'' @
     ''\<newline>'' @
     ''2. Current Behavior:\<newline>'' @
     ''- Document existing functionality and dependencies\<newline>'' @
     ''- List external APIs and side effects \<newline>'' @
     ''- Identify key usage patterns that must be preserved\<newline>'' @
     ''\<newline>'' @
     ''3. Code Quality:\<newline>'' @
     ''- Complexity and documentation\<newline>'' @
     ''- Error handling and edge cases\<newline>'' @
     ''- Performance and security concerns\<newline>'' @
     ''- Common bugs (off-by-one, type issues)\<newline>'' @
     ''\<newline>'' @
     ''4. Refactoring (if needed):\<newline>'' @
     ''- What must stay the same\<newline>'' @
     ''- Step-by-step changes that won't break existing behavior\<newline>'' @
     ''- Any unavoidable breaking changes\<newline>'' @
     ''\<newline>'' @
     ''Please ensure suggestions maintain backward compatibility unless explicitly noted.''\<close>

definition RESPONSE_FORMAT :: string where
  \<comment> \<open>the fixed text of the template literal after \<open>${featureRequest}\<close>\<close>
  \<open>RESPONSE_FORMAT =
     ''\<newline>'' @
     ''\<newline>'' @
     ''Return your analysis in this exact JSON format without any markdown formatting or code blocks:\<newline>'' @
     ''{\<newline>'' @
     ''  "needsRefactor": boolean,\<newline>'' @
     ''  "refactorPrompt": string or null\<newline>'' @
     ''}''\<close>

definition buildAnalysisPrompt :: "string option \<Rightarrow> string" where
  \<comment> \<open>The argument is the optional command-line word: \<open>None\<close> is \<open>undefined\<close> (or
      \<open>null\<close>), and the empty string is falsy as well.\<close>
  "buildAnalysisPrompt userFeatureRequest =
     (let basePrompt = DEFAULT_ANALYSIS_PROMPT;
          featureRequest =
            (case userFeatureRequest of
               Some request \<Rightarrow>
                 if request \<noteq> [] then ''\<newline>Additional requirements:\<newline>'' @ request else []
             | None \<Rightarrow> [])
      in basePrompt @ featureRequest @ RESPONSE_FORMAT)"

fun starts_with :: "string \<Rightarrow> string \<Rightarrow> bool" where
  \<comment> \<open>\<open>s.startsWith(w)\<close>\<close>
  "starts_with s [] = True"
| "starts_with [] (y # w) = False"
| "starts_with (x # s) (y # w) = (if x = y then starts_with s w else False)"

fun str_includes :: "string \<Rightarrow> string \<Rightarrow> bool" where
  \<comment> \<open>\<open>s.includes(w)\<close>\<close>
  "str_includes [] w = (w = [])"
| "str_includes (x # s) w = (if starts_with (x # s) w then True else str_includes s w)"

fun typeof :: "jsval \<Rightarrow> string" where
  "typeof JUndefined = ''undefined''"
| "typeof JNull = ''object''"
| "typeof (JBool b) = ''boolean''"
| "typeof (JNum q) = ''number''"
| "typeof (JStr s) = ''string''"
| "typeof (JArr xs) = ''object''"
| "typeof (JObj kvs) = ''object''"

section \<open>Analysed records and the text helpers of the file generator\<close>

text \<open>
  An analysed record is \<open>{...functionData, analysis}\<close>: the function record with one more
  property. The analysis is whatever \<open>JSON.parse\<close> returned, or the default verdict.
\<close>

record 'r analyzed =
  func :: 'r
  analysis :: jsval

definition get_member :: "jsval \<Rightarrow> string \<Rightarrow> error + jsval" where
  \<comment> \<open>\<open>v.key\<close>: reading a property of \<open>null\<close> or \<open>undefined\<close> throws a \<open>TypeError\<close> (the
      messages of the type errors are those of V8)\<close>
  "get_member v key =
     (case v of
        JNull \<Rightarrow> Inl (TypeError (''Cannot read properties of null (reading '' @ [CHR 0x27] @ key @ [CHR 0x27] @ '')''))
      | JUndefined \<Rightarrow> Inl (TypeError (''Cannot read properties of undefined (reading '' @ [CHR 0x27] @ key @ [CHR 0x27] @ '')''))
      | _ \<Rightarrow> Inr (get_prop v key))"

definition needsRefactor :: "'r analyzed \<Rightarrow> error + bool" where
  \<comment> \<open>the test \<open>result.analysis.needsRefactor\<close> of a \<open>filter\<close>\<close>
  "needsRefactor result = map_sum id truthy (get_member (analysis result) ''needsRefactor'')"

definition refactorPrompt :: "'r analyzed \<Rightarrow> error + jsval" where
  \<comment> \<open>\<open>result.analysis.refactorPrompt\<close>\<close>
  "refactorPrompt result = get_member (analysis result) ''refactorPrompt''"

fun filterE :: "('a \<Rightarrow> error + bool) \<Rightarrow> 'a list \<Rightarrow> error + 'a list" where
  \<comment> \<open>\<open>xs.filter(p)\<close> with a test that may throw: the first throw ends the call\<close>
  "filterE p [] = Inr []"
| "filterE p (x # xs) =
     (case p x of
        Inl e \<Rightarrow> Inl e
      | Inr b \<Rightarrow>
          (case filterE p xs of
             Inl e \<Rightarrow> Inl e
           | Inr ys \<Rightarrow> Inr (if b then x # ys else ys)))"

fun mapE :: "('a \<Rightarrow> error + 'b) \<Rightarrow> 'a list \<Rightarrow> error + 'b list" where
  \<comment> \<open>\<open>xs.map(f)\<close> with a function that may throw\<close>
  "mapE f [] = Inr []"
| "mapE f (x # xs) =
     (case f x of
        Inl e \<Rightarrow> Inl e
      | Inr y \<Rightarrow> (case mapE f xs of Inl e \<Rightarrow> Inl e | Inr ys \<Rightarrow> Inr (y # ys)))"

fun split_on :: "char \<Rightarrow> string \<Rightarrow> string list" where
  \<comment> \<open>\<open>s.split(sep)\<close> for a separator of one character\<close>
  "split_on sep [] = [] # []"
| "split_on sep (x # s) =
     (if x = sep then [] # split_on sep s
      else (case split_on sep s of
              [] \<Rightarrow> [x] # []
            | piece # pieces \<Rightarrow> (x # piece) # pieces))"

fun join_with :: "string \<Rightarrow> string list \<Rightarrow> string" where
  \<comment> \<open>\<open>xs.join(sep)\<close> for an array of strings\<close>
  "join_with sep [] = []"
| "join_with sep [x] = x"
| "join_with sep (x # y # xs) = x @ sep @ join_with sep (y # xs)"

definition split_string :: "jsval \<Rightarrow> string \<Rightarrow> char \<Rightarrow> error + string list" where
  \<comment> \<open>\<open>v.split(sep)\<close>, where \<open>path\<close> is how the source spells \<open>v\<close>: only a string has the method\<close>
  "split_string v path sep =
     (case v of
        JStr s \<Rightarrow> Inr (split_on sep s)
      | JNull \<Rightarrow> Inl (TypeError ''Cannot read properties of null (reading 'split')'')
      | JUndefined \<Rightarrow> Inl (TypeError ''Cannot read properties of undefined (reading 'split')'')
      | _ \<Rightarrow> Inl (TypeError (path @ ''.split is not a function'')))"

fun show_nat :: "nat \<Rightarrow> string" where
  \<comment> \<open>the decimal digits of a number, as a template literal prints it\<close>
  "show_nat n =
     (if n < 10 then [char_of (48 + n)]
      else show_nat (n div 10) @ [char_of (48 + n mod 10)])"

declare show_nat.simps [simp del]

definition show_name :: "string option \<Rightarrow> string" where
  \<comment> \<open>\<open>${result.name}\<close>\<close>
  "show_name n = (case n of Some s \<Rightarrow> s | None \<Rightarrow> ''undefined'')"

text \<open>
  The functions of Node's \<open>path\<close> module are not part of the program; the generator takes
  them as a parameter.
\<close>

record path_module =
  dirname :: "string \<Rightarrow> string"
  basename :: "string \<Rightarrow> string \<Rightarrow> string"
  extname :: "string \<Rightarrow> string"
  join :: "string \<Rightarrow> string \<Rightarrow> string"

definition refactorPathOf :: "path_module \<Rightarrow> string \<Rightarrow> string" where
  \<comment> \<open>\<open>path.join(dirName, `${baseName}.refactor${fileExt}`)\<close>\<close>
  "refactorPathOf P filePath =
     (let fileExt = extname P filePath;
          baseName = basename P filePath fileExt;
          dirName = dirname P filePath
      in join P dirName (baseName @ ''.refactor'' @ fileExt))"

section \<open>The file generator, consolidated variant\<close>

definition formatRefactorPrompt :: "('a functionRecord_scheme) analyzed \<Rightarrow> nat \<Rightarrow> error + string" where
  "formatRefactorPrompt result i =
     (case refactorPrompt result of
        Inl e \<Rightarrow> Inl e
      | Inr v \<Rightarrow>
          (case split_string v ''result.analysis.refactorPrompt'' (CHR 0x0A) of
             Inl e \<Rightarrow> Inl e
           | Inr lines \<Rightarrow>
               (let prompt =
                      replace_all (plus ws) '' ''
                        (join_with '' ''
                           (map trim
                              (filter (\<lambda>line. \<not> str_includes line ''Module Context'' \<and>
                                               trim line \<noteq> [] \<and>
                                               \<not> str_includes line ''javascript'') lines))) 0
                in Inr (show_nat (i + 1) @ ''. Function '' @ [CHR 0x27] @
                        show_name (name (func result)) @ [CHR 0x27] @ '': '' @ prompt))))"

definition generateRefactorFile ::
  "path_module \<Rightarrow> filesystem \<Rightarrow> string \<Rightarrow> ('a functionRecord_scheme) analyzed list \<Rightarrow>
   'b fileContent \<Rightarrow> (error + string option) \<times> filesystem" where
  \<comment> \<open>The result is what the call returns or throws (\<open>Inr None\<close> is \<open>null\<close>), and the files
      after the call. Every throw inside the \<open>try\<close> block is caught and thrown again with
      the prefix.\<close>
  "generateRefactorFile P files filePath analysisResults original =
     (let wrap = (\<lambda>e. Error (''Failed to generate refactor file: '' @ message e))
      in case filterE needsRefactor analysisResults of
           Inl e \<Rightarrow> (Inl (wrap e), files)
         | Inr flagged \<Rightarrow>
             (let needsRefactoring = sort_key (\<lambda>r. startIndex (func r)) flagged
              in if length needsRefactoring = 0 then (Inr None, files)
                 else
                   (let refactorPath = refactorPathOf P filePath
                    in case mapE (\<lambda>(result, i). formatRefactorPrompt result i)
                              (zip needsRefactoring [0 ..< length needsRefactoring]) of
                         Inl e \<Rightarrow> (Inl (wrap e), files)
                       | Inr prompts \<Rightarrow>
                           (let outputContent =
                                  ''Refactor the following file, focusing on these '' @
                                  show_nat (length needsRefactoring) @ '' functions:\<newline>\<newline>'' @
                                  join_with ''\<newline>'' prompts @
                                  ''\<newline>\<newline>FILE CONTENT:\<newline>'' @
                                  originalContent original @
                                  ''\<newline>\<newline>Return only the complete refactored code, maintaining the same exports and core functionality.''
                            in (Inr (Some refactorPath),
                                writeFile files refactorPath outputContent)))))"

section \<open>The file generator, spliced variant\<close>

definition refactorComment :: "string \<Rightarrow> string" where
  \<comment> \<open>the comment block for a prompt that is a string\<close>
  "refactorComment prompt =
     (let commentLines =
            join_with ''\<newline>'' (map (\<lambda>line. '' * '' @ trim line) (split_on (CHR 0x0A) prompt))
      in ''\<newline>/**\<newline> * REFACTOR:\<newline>'' @ commentLines @ ''\<newline> */\<newline>'')"

definition insert_at :: "string \<Rightarrow> nat \<Rightarrow> string \<Rightarrow> string" where
  \<comment> \<open>\<open>text.slice(0, i) + block + text.slice(i)\<close>\<close>
  "insert_at text i block = slice text 0 i @ block @ slice_from text i"

fun splice_loop ::
  "('a functionRecord_scheme) analyzed list \<Rightarrow> string \<Rightarrow> error + string" where
  \<comment> \<open>the \<open>for\<close> loop over \<open>sortedResults\<close>; the argument is \<open>refactoredContent\<close>\<close>
  "splice_loop [] refactoredContent = Inr refactoredContent"
| "splice_loop (result # rest) refactoredContent =
     (case refactorPrompt result of
        Inl e \<Rightarrow> Inl e
      | Inr v \<Rightarrow>
          if truthy v then
            (case split_string v ''result.analysis.refactorPrompt'' (CHR 0x0A) of
               Inl e \<Rightarrow> Inl e
             | Inr lines \<Rightarrow>
                 (let commentLines = join_with ''\<newline>'' (map (\<lambda>line. '' * '' @ trim line) lines);
                      refactorComment = ''\<newline>/**\<newline> * REFACTOR:\<newline>'' @ commentLines @ ''\<newline> */\<newline>''
                  in splice_loop rest
                       (insert_at refactoredContent (startIndex (func result)) refactorComment)))
          else splice_loop rest refactoredContent)"

definition sort_descending :: "('a functionRecord_scheme) analyzed list \<Rightarrow> ('a functionRecord_scheme) analyzed list" where
  \<comment> \<open>\<open>[...xs].sort((a, b) => b.startIndex - a.startIndex)\<close>: the sort is stable\<close>
  "sort_descending xs = sort_key (\<lambda>r. - int (startIndex (func r))) xs"

definition generateRefactorFile_old ::
  "path_module \<Rightarrow> filesystem \<Rightarrow> string \<Rightarrow> ('a functionRecord_scheme) analyzed list \<Rightarrow>
   'b fileContent \<Rightarrow> (error + string) \<times> filesystem" where
  "generateRefactorFile_old P files filePath analysisResults original =
     (let refactorPath = refactorPathOf P filePath
      in case filterE needsRefactor (sort_descending analysisResults) of
           Inl e \<Rightarrow> (Inl e, files)
         | Inr sortedResults \<Rightarrow>
             (case splice_loop sortedResults (originalContent original) of
                Inl e \<Rightarrow> (Inl e, files)
              | Inr refactoredContent \<Rightarrow>
                  (Inr refactorPath, writeFile files refactorPath refactoredContent)))"

subsection \<open>What the spliced document should be\<close>

fun is_verdict :: "jsval \<Rightarrow> bool" where
  \<comment> \<open>the shape \<open>{needsRefactor: boolean, refactorPrompt: string | null}\<close>\<close>
  "is_verdict (JObj kvs) =
     (case (get_prop (JObj kvs) ''needsRefactor'', get_prop (JObj kvs) ''refactorPrompt'') of
        (JBool b, JStr s) \<Rightarrow> True
      | (JBool b, JNull) \<Rightarrow> True
      | _ \<Rightarrow> False)"
| "is_verdict v = False"

definition comment_for :: "'r analyzed \<Rightarrow> string" where
  \<comment> \<open>the comment block of a record: the one of its prompt when the record is flagged and
      the prompt is a non-empty string, and nothing otherwise\<close>
  "comment_for result =
     (if needsRefactor result = Inr True
      then (case refactorPrompt result of
              Inr (JStr prompt) \<Rightarrow> if prompt = [] then [] else refactorComment prompt
            | _ \<Rightarrow> [])
      else [])"

definition by_position ::
  "('a functionRecord_scheme) analyzed list \<Rightarrow> ('a functionRecord_scheme) analyzed list" where
  \<comment> \<open>the records in source order, whatever the order of the array is\<close>
  "by_position rs = sort_key (\<lambda>r. startIndex (func r)) rs"

fun weave :: "string \<Rightarrow> nat \<Rightarrow> ('a functionRecord_scheme) analyzed list \<Rightarrow> string" where
  \<comment> \<open>the content from \<open>pos\<close> on, with the comment block of each record put right before
      the record's \<open>startIndex\<close>; written from the specification, for records in source order\<close>
  "weave content pos [] = slice_from content pos"
| "weave content pos (r # rs) =
     slice content pos (startIndex (func r)) @ comment_for r @
     weave content (startIndex (func r)) rs"

section \<open>\<open>JSON.parse\<close>\<close>

text \<open>
  \<open>JSON.parse\<close> is part of the language, not of the program; the model follows the JSON
  grammar: a lexer, and a parser that reads one token per step and keeps the open arrays and
  objects on a stack. A string of the model holds code units below 256, so a \<open>\u\<close> escape is
  cut to its low byte. A later duplicate of a key replaces the value of the earlier one.
\<close>

datatype token =
    LBrace | RBrace | LBracket | RBracket | Colon | Comma
  | TString string | TNumber rat | TTrue | TFalse | TNull

definition is_digit :: "char \<Rightarrow> bool" where
  "is_digit x = (x \<in> set ''0123456789'')"

definition digit_value :: "char \<Rightarrow> nat" where
  "digit_value x = of_char x - 48"

definition hex_value :: "char \<Rightarrow> nat option" where
  "hex_value x =
     (if is_digit x then Some (of_char x - 48)
      else if x \<in> set ''abcdef'' then Some (of_char x - 87)
      else if x \<in> set ''ABCDEF'' then Some (of_char x - 55)
      else None)"

definition escape :: "string \<Rightarrow> (char \<times> string) option" where
  \<comment> \<open>the character an escape denotes, from the text after the backslash, and the rest\<close>
  "escape s =
     (case s of
        [] \<Rightarrow> None
      | e # s' \<Rightarrow>
          if e = CHR ''u'' then
            (case s' of
               a # b # c # d # s'' \<Rightarrow>
                 (case (hex_value a, hex_value b, hex_value c, hex_value d) of
                    (Some h3, Some h2, Some h1, Some h0) \<Rightarrow> Some (char_of (16 * h1 + h0), s'')
                  | _ \<Rightarrow> None)
             | _ \<Rightarrow> None)
          else
            map_option (\<lambda>y. (y, s'))
              (map_of [(CHR 0x22, CHR 0x22), (CHR 0x5C, CHR 0x5C), (CHR ''/'', CHR ''/''),
                       (CHR ''b'', CHR 0x08), (CHR ''f'', CHR 0x0C), (CHR ''n'', CHR 0x0A),
                       (CHR ''r'', CHR 0x0D), (CHR ''t'', CHR 0x09)] e))"

lemma escape_shorter: "escape s = Some (y, r) \<Longrightarrow> length r < length s"
  unfolding escape_def
  by (auto split: list.splits if_splits option.splits simp del: map_of.simps)

function string_body :: "string \<Rightarrow> (string \<times> string) option" where
  \<comment> \<open>the characters of a string literal after its opening quote, and what follows the
      closing quote\<close>
  "string_body [] = None"
| "string_body (x # s) =
     (if x = CHR 0x22 then Some ([], s)
      else if x = CHR 0x5C then
        (case escape s of
           None \<Rightarrow> None
         | Some (y, s') \<Rightarrow> map_option (\<lambda>(w, r). (y # w, r)) (string_body s'))
      else if of_char x < (32 :: nat) then None
      else map_option (\<lambda>(w, r). (x # w, r)) (string_body s))"
  by pat_completeness auto
termination
proof (relation "measure length")
  show "wf (measure length)" by simp
next
  fix x :: char and s s' :: string and y :: char and p :: "char \<times> string"
  assume "escape s = Some p" "(y, s') = p"
  then have "escape s = Some (y, s')" by simp
  from escape_shorter[OF this] show "(s', x # s) \<in> measure length" by simp
next
  fix x :: char and s :: string
  show "(s, x # s) \<in> measure length" by simp
qed

definition digits_value :: "string \<Rightarrow> nat" where
  "digits_value ds = foldl (\<lambda>n x. 10 * n + digit_value x) 0 ds"

definition number_value :: "string \<Rightarrow> rat option" where
  \<comment> \<open>the value of a number literal, or \<open>None\<close> when the text is not one:
      \<open>-? (0 | [1-9][0-9]*) (. [0-9]+)? ([eE] [+-]? [0-9]+)?\<close>\<close>
  "number_value s =
     (let negative = (s \<noteq> [] \<and> hd s = CHR ''-'');
          s1 = (if negative then tl s else s);
          ip = takeWhile is_digit s1;
          s2 = dropWhile is_digit s1;
          has_frac = (s2 \<noteq> [] \<and> hd s2 = CHR ''.'');
          fp = (if has_frac then takeWhile is_digit (tl s2) else []);
          s3 = (if has_frac then dropWhile is_digit (tl s2) else s2);
          has_exp = (s3 \<noteq> [] \<and> hd s3 \<in> set ''eE'');
          s4 = (if has_exp then tl s3 else s3);
          exp_negative = (has_exp \<and> s4 \<noteq> [] \<and> hd s4 = CHR ''-'');
          s5 = (if has_exp \<and> s4 \<noteq> [] \<and> hd s4 \<in> set ''+-'' then tl s4 else s4);
          ep = (if has_exp then takeWhile is_digit s5 else []);
          s6 = (if has_exp then dropWhile is_digit s5 else s5)
      in if ip = [] \<or> (length ip > 1 \<and> hd ip = CHR ''0'') \<or> (has_frac \<and> fp = []) \<or>
            (has_exp \<and> ep = []) \<or> s6 \<noteq> []
         then None
         else
           (let mantissa = of_nat (digits_value (ip @ fp)) / of_nat (10 ^ length fp);
                scaled = (if exp_negative then mantissa / of_nat (10 ^ digits_value ep)
                          else mantissa * of_nat (10 ^ digits_value ep))
            in Some (if negative then - scaled else scaled)))"

definition is_number_char :: "char \<Rightarrow> bool" where
  "is_number_char x = (is_digit x \<or> x \<in> set ''+-.eE'')"

definition is_json_space :: "char \<Rightarrow> bool" where
  "is_json_space x = (x \<in> set [CHR 0x20, CHR 0x09, CHR 0x0A, CHR 0x0D])"

lemma string_body_shorter: "string_body s = Some (w, r) \<Longrightarrow> length r < length s"
proof (induction s arbitrary: w r rule: string_body.induct)
  case 1
  then show ?case by simp
next
  case (2 x s)
  show ?case
  proof (cases "x = CHR 0x22")
    case True
    with "2.prems" show ?thesis by simp
  next
    case nq: False
    show ?thesis
    proof (cases "x = CHR 0x5C")
      case False
      with nq "2.prems" obtain w' where rest: "string_body s = Some (w', r)"
        and nc: "\<not> of_char x < (32 :: nat)"
        by (auto split: if_splits)
      from "2.IH"(2)[OF nq False nc rest] show ?thesis by simp
    next
      case True
      with nq "2.prems" obtain y s' w' where e: "escape s = Some (y, s')"
        and rest: "string_body s' = Some (w', r)"
        by (auto split: option.splits)
      from "2.IH"(1)[OF nq True e refl rest] escape_shorter[OF e] show ?thesis by simp
    qed
  qed
qed
function lex :: "string \<Rightarrow> token list option" where
  "lex [] = Some []"
| "lex (x # s) =
     (if is_json_space x then lex s
      else if x = CHR ''{'' then map_option ((#) LBrace) (lex s)
      else if x = CHR ''}'' then map_option ((#) RBrace) (lex s)
      else if x = CHR ''['' then map_option ((#) LBracket) (lex s)
      else if x = CHR '']'' then map_option ((#) RBracket) (lex s)
      else if x = CHR '':'' then map_option ((#) Colon) (lex s)
      else if x = CHR '','' then map_option ((#) Comma) (lex s)
      else if x = CHR 0x22 then
        (case string_body s of
           None \<Rightarrow> None
         | Some (w, r) \<Rightarrow> map_option ((#) (TString w)) (lex r))
      else if is_number_char x then
        (case number_value (x # takeWhile is_number_char s) of
           None \<Rightarrow> None
         | Some q \<Rightarrow> map_option ((#) (TNumber q)) (lex (dropWhile is_number_char s)))
      else if starts_with (x # s) ''true'' then map_option ((#) TTrue) (lex (drop 3 s))
      else if starts_with (x # s) ''false'' then map_option ((#) TFalse) (lex (drop 4 s))
      else if starts_with (x # s) ''null'' then map_option ((#) TNull) (lex (drop 3 s))
      else None)"
  by pat_completeness auto
termination
proof (relation "measure length")
  fix x :: char and s r :: string and w :: string and p :: "string \<times> string"
  assume "string_body s = Some p" "(w, r) = p"
  then have "string_body s = Some (w, r)" by simp
  from string_body_shorter[OF this] show "(r, x # s) \<in> measure length" by simp
next
  fix x :: char and s :: string
  show "(dropWhile is_number_char s, x # s) \<in> measure length"
    using length_dropWhile_le[of is_number_char s] by simp
qed simp_all

fun obj_put :: "(string \<times> jsval) list \<Rightarrow> string \<Rightarrow> jsval \<Rightarrow> (string \<times> jsval) list" where
  \<comment> \<open>defining a property: a new key goes to the end, a known key keeps its place\<close>
  "obj_put [] k v = [(k, v)]"
| "obj_put ((k', v') # kvs) k v =
     (if k' = k then (k, v) # kvs else (k', v') # obj_put kvs k v)"

datatype frame =
    InArray "jsval list"
  | InObject "(string \<times> jsval) list"
  | InMember "(string \<times> jsval) list" string

datatype mode =
    WantValue | WantValueOrClose | WantKeyOrClose | WantKey | WantColon string
  | AfterValue | Done jsval

fun deliver :: "jsval \<Rightarrow> frame list \<Rightarrow> (frame list \<times> mode) option" where
  \<comment> \<open>a finished value goes into the innermost open array or object member, or is the
      result\<close>
  "deliver v [] = Some ([], Done v)"
| "deliver v (InArray vs # st) = Some (InArray (vs @ [v]) # st, AfterValue)"
| "deliver v (InMember kvs k # st) = Some (InObject (obj_put kvs k v) # st, AfterValue)"
| "deliver v (InObject kvs # st) = None"

fun value_token :: "frame list \<Rightarrow> token \<Rightarrow> (frame list \<times> mode) option" where
  "value_token st (TString s) = deliver (JStr s) st"
| "value_token st (TNumber q) = deliver (JNum q) st"
| "value_token st TTrue = deliver (JBool True) st"
| "value_token st TFalse = deliver (JBool False) st"
| "value_token st TNull = deliver JNull st"
| "value_token st LBracket = Some (InArray [] # st, WantValueOrClose)"
| "value_token st LBrace = Some (InObject [] # st, WantKeyOrClose)"
| "value_token st t = None"

fun step :: "frame list \<Rightarrow> mode \<Rightarrow> token \<Rightarrow> (frame list \<times> mode) option" where
  "step st (Done v) t = None"
| "step st WantValue t = value_token st t"
| "step (InArray vs # st) WantValueOrClose RBracket = deliver (JArr vs) st"
| "step st WantValueOrClose t = value_token st t"
| "step st WantKeyOrClose (TString k) = Some (st, WantColon k)"
| "step (InObject kvs # st) WantKeyOrClose RBrace = deliver (JObj kvs) st"
| "step st WantKeyOrClose t = None"
| "step st WantKey (TString k) = Some (st, WantColon k)"
| "step st WantKey t = None"
| "step (InObject kvs # st) (WantColon k) Colon = Some (InMember kvs k # st, WantValue)"
| "step st (WantColon k) t = None"
| "step (InArray vs # st) AfterValue Comma = Some (InArray vs # st, WantValue)"
| "step (InArray vs # st) AfterValue RBracket = deliver (JArr vs) st"
| "step (InObject kvs # st) AfterValue Comma = Some (InObject kvs # st, WantKey)"
| "step (InObject kvs # st) AfterValue RBrace = deliver (JObj kvs) st"
| "step st AfterValue t = None"

fun run :: "frame list \<Rightarrow> mode \<Rightarrow> token list \<Rightarrow> jsval option" where
  "run st m [] = (case m of Done v \<Rightarrow> Some v | _ \<Rightarrow> None)"
| "run st m (t # ts) =
     (case step st m t of
        None \<Rightarrow> None
      | Some (st', m') \<Rightarrow> run st' m' ts)"

definition JSON_parse :: "string \<Rightarrow> error + jsval" where
  \<comment> \<open>\<open>JSON.parse(s)\<close>: the value, or a thrown \<open>SyntaxError\<close>\<close>
  "JSON_parse s =
     (case lex s of
        None \<Rightarrow> Inl (SyntaxError ''Unexpected token in JSON'')
      | Some ts \<Rightarrow>
          (case run [] WantValue ts of
             None \<Rightarrow> Inl (SyntaxError ''Unexpected token in JSON'')
           | Some v \<Rightarrow> Inr v))"
section \<open>The analyser\<close>

text \<open>
  The chat capability is not part of the core. With \<open>stream: true\<close> it resolves to the
  complete text of the answer, or rejects; the \<open>for await\<close> loop of the caller puts the
  pieces of that text together again. It is a parameter here: a function from the messages
  to the error or the text.
\<close>

record chat_message =
  msg_role :: string
  msg_content :: string

type_synonym chat = "chat_message list \<Rightarrow> error + string"

definition default_analysis :: jsval where
  \<comment> \<open>\<open>{ needsRefactor: false, refactorPrompt: null }\<close>\<close>
  "default_analysis = JObj [(''needsRefactor'', JBool False), (''refactorPrompt'', JNull)]"

subsection \<open>The current variant\<close>

definition createContextMessage :: "functionRecordCtx \<Rightarrow> string" where
  "createContextMessage functionData =
     ''\<newline>Module Imports:\<newline>'' @
     join_with ''\<newline>'' (imports' (moduleContext functionData)) @
     ''\<newline>\<newline>Module-Level Declarations:\<newline>'' @
     join_with ''\<newline>'' (declarations (moduleContext functionData)) @
     ''\<newline>\<newline>Function Definition:\<newline>'' @
     code functionData @ ''\<newline>''"

definition jsonRegex :: regex where
  \<comment> \<open>\<open>/{[^]*}/\<close>\<close>
  "jsonRegex = seqs [lit ''{'', Star any_char, lit ''}'']"

definition analysisMessages :: "string \<Rightarrow> functionRecordCtx \<Rightarrow> chat_message list" where
  \<comment> \<open>the constant \<open>messages\<close> of \<open>analyzeFunction\<close>\<close>
  "analysisMessages analysisPrompt functionData =
     [\<lparr>msg_role = ''system'',
       msg_content = ''You are a code analysis assistant focused on functional programming principles and module-level context. Always return JSON without markdown formatting.''\<rparr>,
      \<lparr>msg_role = ''user'',
       msg_content = analysisPrompt @ ''\<newline>\<newline>Module Context and Function to Analyze:\<newline>'' @
                     createContextMessage functionData\<rparr>]"

definition analyzeFunction :: "chat \<Rightarrow> string \<Rightarrow> functionRecordCtx \<Rightarrow> functionRecordCtx analyzed" where
  \<comment> \<open>Every throw inside the \<open>try\<close> block (a rejected chat call, no match, a
      \<open>SyntaxError\<close> of \<open>JSON.parse\<close>) ends in the \<open>catch\<close>, which returns the default.\<close>
  "analyzeFunction chat analysisPrompt functionData =
     (case chat (analysisMessages analysisPrompt functionData) of
        Inl e \<Rightarrow> \<lparr>func = functionData, analysis = default_analysis\<rparr>
      | Inr analysisResult \<Rightarrow>
          (case exec jsonRegex analysisResult 0 of
             None \<Rightarrow> \<lparr>func = functionData, analysis = default_analysis\<rparr>
           | Some jsonMatch \<Rightarrow>
               (case JSON_parse (text0 jsonMatch) of
                  Inl e \<Rightarrow> \<lparr>func = functionData, analysis = default_analysis\<rparr>
                | Inr v \<Rightarrow> \<lparr>func = functionData, analysis = v\<rparr>)))"

text \<open>
  \<open>Promise.all\<close> keeps one slot per promise and resolves with the slots once every promise has
  resolved; each promise writes its value into its own slot when it resolves. The order in
  which the analyses complete is the list \<open>completion\<close> of their indices. No analysis rejects,
  since \<open>analyzeFunction\<close> catches every throw. The result \<open>None\<close> is a promise that stays
  pending, because some analysis never completes.
\<close>

fun settle :: "nat list \<Rightarrow> 'a list \<Rightarrow> 'a option list \<Rightarrow> 'a option list" where
  "settle [] values slots = slots"
| "settle (i # completion) values slots =
     settle completion values
       (if i < length values then slots[i := Some (values ! i)] else slots)"

definition promise_all :: "nat list \<Rightarrow> 'a list \<Rightarrow> 'a list option" where
  "promise_all completion values =
     (let slots = settle completion values (replicate (length values) None)
      in if list_all (\<lambda>slot. slot \<noteq> None) slots then Some (map the slots) else None)"

definition analyzeFunctionBatch ::
  "chat \<Rightarrow> nat list \<Rightarrow> functionRecordCtx list \<Rightarrow> string \<Rightarrow>
   (error + functionRecordCtx analyzed list) option" where
  "analyzeFunctionBatch chat completion functionBatch analysisPrompt =
     (if length functionBatch = 0 \<or> analysisPrompt = []
      then Some (Inl (Error ''Invalid arguments: functionBatch must be non-empty array and analysisPrompt must be string''))
      else map_option Inr
             (promise_all completion (map (analyzeFunction chat analysisPrompt) functionBatch)))"

subsection \<open>The older variant\<close>





section \<open>Sample inputs\<close>

definition plain_paths :: path_module where
  \<comment> \<open>what the four functions return for a file name in the current directory that has
      no separator and does not start with a dot\<close>
  "plain_paths =
     \<lparr>dirname = (\<lambda>p. ''.''),
      basename = (\<lambda>p ext. if ext \<noteq> [] \<and> length ext < length p \<and>
                                 drop (length p - length ext) p = ext
                              then take (length p - length ext) p else p),
      extname = (\<lambda>p. if CHR ''.'' \<in> set p
                        then CHR ''.'' # rev (takeWhile (\<lambda>x. x \<noteq> CHR ''.'') (rev p)) else []),
      join = (\<lambda>dir file. if dir = ''.'' then file else dir @ ''/'' @ file)\<rparr>"

definition sample_record :: "jsval \<Rightarrow> functionRecord analyzed" where
  \<comment> \<open>the record of the one function of \<open>x function f(){}\<close>, with a given analysis\<close>
  "sample_record verdict =
     \<lparr>func = \<lparr>name = Some ''f'', code = ''function f(){}'', preText = [],
               startIndex = 2, endIndex = 16\<rparr>,
      analysis = verdict\<rparr>"

definition sample_content :: "functionRecord fileContent" where
  "sample_content =
     \<lparr>functions' = [func (sample_record JNull)], postText = [],
      originalContent = ''x function f(){}''\<rparr>"

definition record_f :: "jsval \<Rightarrow> functionRecord analyzed" where
  \<comment> \<open>the record of the first function of \<open>function f(){} function g(){}\<close>\<close>
  "record_f verdict =
     \<lparr>func = \<lparr>name = Some ''f'', code = ''function f(){}'', preText = [],
               startIndex = 0, endIndex = 14\<rparr>,
      analysis = verdict\<rparr>"

definition record_g :: "jsval \<Rightarrow> functionRecord analyzed" where
  \<comment> \<open>the record of the second function of \<open>function f(){} function g(){}\<close>\<close>
  "record_g verdict =
     \<lparr>func = \<lparr>name = Some ''g'', code = ''function g(){}'', preText = '' '',
               startIndex = 15, endIndex = 29\<rparr>,
      analysis = verdict\<rparr>"

definition two_functions :: "functionRecord fileContent" where
  "two_functions =
     \<lparr>functions' = [func (record_f JNull), func (record_g JNull)], postText = [],
      originalContent = ''function f(){} function g(){}''\<rparr>"

definition sample_function :: functionRecordCtx where
  \<comment> \<open>the record the scanner returns for the one function of \<open>x function f(){}\<close>\<close>
  "sample_function =
     \<lparr>name = Some ''f'', code = ''function f(){}'', preText = [], startIndex = 2,
      endIndex = 16,
      moduleContext = \<lparr>imports' = [], declarations = [], fullContext = ''x ''\<rparr>\<rparr>"

definition sample_chat :: chat where
  \<comment> \<open>a chat capability that answers with a verdict when asked about the function \<open>g\<close>,
      and with prose otherwise\<close>
  \<open>sample_chat messages =
     (if str_includes (msg_content (last messages)) ''function g''
      then Inr ''{"needsRefactor": true, "refactorPrompt": "Split it."}''
      else Inr ''I cannot tell.'')\<close>

section \<open>Properties of the scanner\<close>

text \<open>
  \<open>placed content bnd fs\<close>: the records lie one after the other in the content, each a
  non-empty span that ends at or before \<open>bnd\<close>, and each holds the text of its span.
\<close>

definition placed :: "string \<Rightarrow> nat \<Rightarrow> ('a functionRecord_scheme) list \<Rightarrow> bool" where
  "placed content bnd fs =
     (sorted_wrt (\<lambda>a b. endIndex a \<le> startIndex b) fs \<and>
      list_all (\<lambda>r. startIndex r < endIndex r \<and> endIndex r \<le> bnd \<and>
                  code r = slice content (startIndex r) (endIndex r)) fs)"

lemma consumes_functionRegex: "consumes functionRegex"
  by (simp add: functionRegex_def seqs_def lit_def plus_def opt_def ws_def word_def none_of_def)


lemma placed_snoc:
  assumes "placed content bnd fs" "bnd \<le> startIndex r" "startIndex r < endIndex r"
    "code r = slice content (startIndex r) (endIndex r)"
  shows "placed content (endIndex r) (fs @ [r])"
  using assms
  by (auto simp: placed_def sorted_wrt_append list_all_iff)

lemma scan_loop_placed:
  "placed content lastIndex fs \<Longrightarrow> lastIndex \<le> length content \<Longrightarrow>
   \<exists>fs' lastIndex'. scan_loop content lastIndex fs = Some (Inr (fs', lastIndex')) \<and>
      placed content lastIndex' fs' \<and> lastIndex' \<le> length content"
proof (induction content lastIndex fs rule: scan_loop.induct)
  case (1 content lastIndex fs)
  show ?case
  proof (cases "exec functionRegex content lastIndex")
    case None
    with "1.prems" show ?thesis by (simp add: scan_loop.simps)
  next
    case (Some m)
    define e where "e = index m + length (text0 m)"
    define ctx where "ctx = \<lparr>imports' = map (\<lambda>m. trim (text0 m)) (match_all importRegex (slice_to_num content (of_nat (index m))) 0),
                   declarations = map (\<lambda>m. trim (text0 m)) (match_all declRegex (slice_to_num content (of_nat (index m))) 0),
                   fullContext = slice_to_num content (of_nat (index m))\<rparr>"
    have ctx: "extractModuleContext (JStr content) (JNum (of_nat (index m))) = Inr ctx"
      by (simp add: extractModuleContext_def ctx_def Let_def)
    from exec_bounds[OF Some] have b: "lastIndex \<le> index m" "e \<le> length content"
      by (simp_all add: e_def)
    from exec_consumes[OF consumes_functionRegex Some] have ne: "index m < e"
      by (simp add: e_def)
    define r where "r = \<lparr>name = functionName m, code = text0 m,
         preText = lastRefactorComment (slice content lastIndex (index m)),
         startIndex = index m, endIndex = e, moduleContext = ctx\<rparr>"
    have adv: "\<not> e \<le> lastIndex" using b ne by simp
    have "placed content (endIndex r) (fs @ [r])"
    proof (rule placed_snoc[OF "1.prems"(1)])
      show "lastIndex \<le> startIndex r" using b by (simp add: r_def)
      show "startIndex r < endIndex r" using ne by (simp add: r_def)
      show "code r = slice content (startIndex r) (endIndex r)"
        using exec_text[OF Some] by (simp add: r_def e_def)
    qed
    then have pl: "placed content e (fs @ [r])" by (simp add: r_def)
    from "1.IH"[OF Some refl refl ctx, folded e_def, OF adv, folded r_def, OF pl b(2)]
    obtain fs' lastIndex' where
      "scan_loop content e (fs @ [r]) = Some (Inr (fs', lastIndex'))"
      "placed content lastIndex' fs'" "lastIndex' \<le> length content" by blast
    moreover have "scan_loop content lastIndex fs = scan_loop content e (fs @ [r])"
      using Some ctx adv by (subst scan_loop.simps) (simp add: Let_def e_def r_def)
    ultimately show ?thesis by simp
  qed
qed

lemma placed_sorted_start:
  "placed content bnd fs \<Longrightarrow> sorted_wrt (\<lambda>a b. startIndex a < startIndex b) fs"
proof (induction fs)
  case Nil
  then show ?case by simp
next
  case (Cons r fs)
  then show ?case by (fastforce simp: placed_def list_all_iff)
qed

lemma sorted_start_sort_key:
  "sorted_wrt (\<lambda>a b. startIndex a < startIndex b) fs \<Longrightarrow> sort_key startIndex fs = fs"
proof -
  assume "sorted_wrt (\<lambda>a b. startIndex a < startIndex b) fs"
  then have "sorted_wrt (\<lambda>a b. startIndex a \<le> startIndex b) fs"
    by (rule sorted_wrt_mono_rel[rotated]) simp
  then have "sorted (map startIndex fs)" by (simp add: sorted_wrt_map)
  then show ?thesis by (rule sort_key_id_if_sorted)
qed

text \<open>
  Claim C1. Whatever the file holds, \<open>extractFunctions\<close> returns, and the records it returns
  are in source order: their \<open>startIndex\<close> strictly increases, every record ends at or
  before the start of every later one (so no two spans \<open>[startIndex, endIndex)\<close> overlap),
  every span is non-empty and inside the content, and \<open>code\<close> is the text of the span.
\<close>

theorem scanner_records_sorted_disjoint:
  assumes "files filePath = Some content"
  shows "\<exists>fs post.
      extractFunctions files filePath =
        Some (Inr \<lparr>functions' = fs, postText = post, originalContent = content\<rparr>) \<and>
      sorted_wrt (\<lambda>a b. startIndex a < startIndex b) fs \<and>
      sorted_wrt (\<lambda>a b. endIndex a \<le> startIndex b) fs \<and>
      list_all (\<lambda>r. startIndex r < endIndex r \<and> endIndex r \<le> length content \<and>
                    code r = slice content (startIndex r) (endIndex r)) fs"
proof -
  have "placed content 0 ([] :: functionRecordCtx list)" by (simp add: placed_def)
  from scan_loop_placed[OF this] obtain fs lastIndex where
    run: "scan_loop content 0 [] = Some (Inr (fs, lastIndex))"
    and pl: "placed content lastIndex fs" and le: "lastIndex \<le> length content"
    by auto
  have srt: "sorted_wrt (\<lambda>a b. startIndex a < startIndex b) fs"
    by (rule placed_sorted_start[OF pl])
  have "extractFunctions files filePath =
      Some (Inr \<lparr>functions' = fs, postText = slice_from content lastIndex,
                 originalContent = content\<rparr>)"
    using assms run sorted_start_sort_key[OF srt]
    by (simp add: extractFunctions_def readFile_def scanContent_def)
  moreover have "sorted_wrt (\<lambda>a b. endIndex a \<le> startIndex b) fs"
    using pl by (simp add: placed_def)
  moreover have "list_all (\<lambda>r. startIndex r < endIndex r \<and> endIndex r \<le> length content \<and>
                    code r = slice content (startIndex r) (endIndex r)) fs"
    using pl le by (auto simp: placed_def list_all_iff)
  ultimately show ?thesis using srt by blast
qed

theorem scanner_records_sorted_disjoint_witness:
  "\<exists>fs post.
      extractFunctions [''a.js'' \<mapsto> ''function f(){} function g(){}''] ''a.js'' =
        Some (Inr \<lparr>functions' = fs, postText = post,
                   originalContent = ''function f(){} function g(){}''\<rparr>) \<and>
      map startIndex fs = [0, 15] \<and> map endIndex fs = [14, 29] \<and>
      sorted_wrt (\<lambda>a b. startIndex a < startIndex b) fs \<and>
      sorted_wrt (\<lambda>a b. endIndex a \<le> startIndex b) fs"
proof -
  have run: "extractFunctions [''a.js'' \<mapsto> ''function f(){} function g(){}''] ''a.js'' =
     Some (Inr \<lparr>functions' =
        [\<lparr>name = Some ''f'', code = ''function f(){}'', preText = [], startIndex = 0,
           endIndex = 14,
           moduleContext = \<lparr>imports' = [], declarations = [], fullContext = []\<rparr>\<rparr>,
         \<lparr>name = Some ''g'', code = ''function g(){}'', preText = [], startIndex = 15,
           endIndex = 29,
           moduleContext = \<lparr>imports' = [], declarations = [],
             fullContext = ''function f(){} ''\<rparr>\<rparr>],
        postText = [], originalContent = ''function f(){} function g(){}''\<rparr>)"
    by code_simp
  have "[''a.js'' \<mapsto> ''function f(){} function g(){}''] ''a.js'' =
      Some ''function f(){} function g(){}''" by simp
  from scanner_records_sorted_disjoint
         [of "[''a.js'' \<mapsto> ''function f(){} function g(){}'']" "''a.js''", OF this] run
  show ?thesis by auto
qed

lemma slice_append:
  "a \<le> b \<Longrightarrow> b \<le> c \<Longrightarrow> slice s a b @ slice s b c = slice s a c"
proof -
  assume le: "a \<le> b" "b \<le> c"
  have "take (c - a) (drop a s) = take (b - a) (drop a s) @ take (c - b) (drop (b - a) (drop a s))"
    using le take_add[of "b - a" "c - b" "drop a s"] by simp
  with le show ?thesis by (simp add: slice_def)
qed

lemma take_slice: "a \<le> b \<Longrightarrow> take a s @ slice s a b = take b s"
  using slice_append[of 0 a b s] by (simp add: slice_def)








section \<open>Properties of the prompt builder\<close>

lemma starts_with_iff: "starts_with s w \<longleftrightarrow> (\<exists>q. s = w @ q)"
  by (induction s w rule: starts_with.induct) auto

lemma str_includes_iff: "str_includes s w \<longleftrightarrow> (\<exists>p q. s = p @ w @ q)"
proof (induction s)
  case Nil
  then show ?case by auto
next
  case (Cons x s)
  show ?case
  proof
    assume "str_includes (x # s) w"
    then consider "starts_with (x # s) w" | "str_includes s w" by (auto split: if_splits)
    then show "\<exists>p q. x # s = p @ w @ q"
    proof cases
      case 1
      then obtain q where "x # s = [] @ w @ q" by (auto simp: starts_with_iff)
      then show ?thesis by blast
    next
      case 2
      with Cons.IH obtain p q where "s = p @ w @ q" by blast
      then have "x # s = (x # p) @ w @ q" by simp
      then show ?thesis by blast
    qed
  next
    assume "\<exists>p q. x # s = p @ w @ q"
    then obtain p q where pq: "x # s = p @ w @ q" by blast
    show "str_includes (x # s) w"
    proof (cases p)
      case Nil
      with pq have "starts_with (x # s) w" by (auto simp: starts_with_iff)
      then show ?thesis by simp
    next
      case (Cons y p')
      with pq have "s = p' @ w @ q" by simp
      with Cons.IH show ?thesis by auto
    qed
  qed
qed

lemma str_includes_chars: "str_includes s w \<Longrightarrow> set w \<subseteq> set s"
  by (auto simp: str_includes_iff)

lemma no_q_in_fixed_text: "CHR ''q'' \<notin> set (DEFAULT_ANALYSIS_PROMPT @ RESPONSE_FORMAT)"
  by (simp add: DEFAULT_ANALYSIS_PROMPT_def RESPONSE_FORMAT_def)

lemma no_heading_without_request:
  "\<not> str_includes (DEFAULT_ANALYSIS_PROMPT @ RESPONSE_FORMAT) ''Additional requirements''"
proof
  assume "str_includes (DEFAULT_ANALYSIS_PROMPT @ RESPONSE_FORMAT) ''Additional requirements''"
  from str_includes_chars[OF this] have
    "CHR ''q'' \<in> set (DEFAULT_ANALYSIS_PROMPT @ RESPONSE_FORMAT)" by simp
  with no_q_in_fixed_text show False by simp
qed

lemma RESPONSE_FORMAT_text:
  \<open>RESPONSE_FORMAT =
     ''\<newline>\<newline>Return your analysis in this exact JSON format without any markdown formatting or code blocks:\<newline>{\<newline>  "needsRefactor": boolean,\<newline>  "refactorPrompt": string or null\<newline>}''\<close>
  by (simp add: RESPONSE_FORMAT_def)

lemma buildAnalysisPrompt_shape:
  "(request \<noteq> [] \<longrightarrow>
      buildAnalysisPrompt (Some request) =
        DEFAULT_ANALYSIS_PROMPT @ ''\<newline>Additional requirements:\<newline>'' @ request @ RESPONSE_FORMAT) \<and>
   buildAnalysisPrompt (Some []) = DEFAULT_ANALYSIS_PROMPT @ RESPONSE_FORMAT \<and>
   buildAnalysisPrompt None = DEFAULT_ANALYSIS_PROMPT @ RESPONSE_FORMAT \<and>
   \<not> str_includes (buildAnalysisPrompt None) ''Additional requirements'' \<and>
   \<not> str_includes (buildAnalysisPrompt (Some [])) ''Additional requirements'' \<and>
   (\<exists>before. buildAnalysisPrompt userFeatureRequest = before @ RESPONSE_FORMAT)"
proof -
  have "\<exists>before. buildAnalysisPrompt userFeatureRequest = before @ RESPONSE_FORMAT"
    by (cases userFeatureRequest) (simp_all add: buildAnalysisPrompt_def Let_def)
  moreover have "\<not> str_includes (buildAnalysisPrompt None) ''Additional requirements''"
    using no_heading_without_request by (simp add: buildAnalysisPrompt_def)
  moreover have "\<not> str_includes (buildAnalysisPrompt (Some [])) ''Additional requirements''"
    using no_heading_without_request by (simp add: buildAnalysisPrompt_def)
  ultimately show ?thesis by (simp add: buildAnalysisPrompt_def)
qed

text \<open>
  Claim C8. \<open>buildAnalysisPrompt\<close> is a function of its argument alone. With a non-empty
  request the result is the rubric, a line \<open>Additional requirements:\<close>, the request verbatim
  and the fixed instruction; with no request, or an empty one, it is the rubric and the fixed
  instruction, and the words \<open>Additional requirements\<close> occur nowhere in it. In every case the
  result ends with the fixed instruction, written out in the statement: to return the
  analysis in the exact JSON format of an object with the lines \<open>"needsRefactor": boolean\<close>
  and \<open>"refactorPrompt": string or null\<close>, without any markdown formatting or code blocks.
\<close>

theorem buildAnalysisPrompt_sections:
  \<open>(request \<noteq> [] \<longrightarrow>
      buildAnalysisPrompt (Some request) =
        DEFAULT_ANALYSIS_PROMPT @ ''\<newline>Additional requirements:\<newline>'' @ request @
        ''\<newline>\<newline>Return your analysis in this exact JSON format without any markdown formatting or code blocks:\<newline>{\<newline>  "needsRefactor": boolean,\<newline>  "refactorPrompt": string or null\<newline>}'') \<and>
   buildAnalysisPrompt (Some []) =
     DEFAULT_ANALYSIS_PROMPT @
     ''\<newline>\<newline>Return your analysis in this exact JSON format without any markdown formatting or code blocks:\<newline>{\<newline>  "needsRefactor": boolean,\<newline>  "refactorPrompt": string or null\<newline>}'' \<and>
   buildAnalysisPrompt None =
     DEFAULT_ANALYSIS_PROMPT @
     ''\<newline>\<newline>Return your analysis in this exact JSON format without any markdown formatting or code blocks:\<newline>{\<newline>  "needsRefactor": boolean,\<newline>  "refactorPrompt": string or null\<newline>}'' \<and>
   \<not> str_includes (buildAnalysisPrompt None) ''Additional requirements'' \<and>
   \<not> str_includes (buildAnalysisPrompt (Some [])) ''Additional requirements'' \<and>
   (\<exists>before. buildAnalysisPrompt userFeatureRequest =
      before @
      ''\<newline>\<newline>Return your analysis in this exact JSON format without any markdown formatting or code blocks:\<newline>{\<newline>  "needsRefactor": boolean,\<newline>  "refactorPrompt": string or null\<newline>}'')\<close>
  using buildAnalysisPrompt_shape[of request userFeatureRequest]
  unfolding RESPONSE_FORMAT_text .

theorem buildAnalysisPrompt_sections_witness:
  \<open>buildAnalysisPrompt (Some ''Check types'') =
     DEFAULT_ANALYSIS_PROMPT @ ''\<newline>Additional requirements:\<newline>'' @ ''Check types'' @
     ''\<newline>\<newline>Return your analysis in this exact JSON format without any markdown formatting or code blocks:\<newline>{\<newline>  "needsRefactor": boolean,\<newline>  "refactorPrompt": string or null\<newline>}'' \<and>
   str_includes (buildAnalysisPrompt (Some ''Check types''))
     (''\<newline>Additional requirements:\<newline>'' @ ''Check types'') \<and>
   \<not> str_includes (buildAnalysisPrompt None) ''Additional requirements''\<close>
proof -
  note inst = buildAnalysisPrompt_sections[of "''Check types''" None]
  from inst[THEN conjunct1]
  have eq: \<open>buildAnalysisPrompt (Some ''Check types'') =
     DEFAULT_ANALYSIS_PROMPT @ ''\<newline>Additional requirements:\<newline>'' @ ''Check types'' @
     ''\<newline>\<newline>Return your analysis in this exact JSON format without any markdown formatting or code blocks:\<newline>{\<newline>  "needsRefactor": boolean,\<newline>  "refactorPrompt": string or null\<newline>}''\<close>
    by blast
  have no: "\<not> str_includes (buildAnalysisPrompt None) ''Additional requirements''"
    by (rule inst[THEN conjunct2, THEN conjunct2, THEN conjunct2, THEN conjunct1])
  have "str_includes (buildAnalysisPrompt (Some ''Check types''))
     (''\<newline>Additional requirements:\<newline>'' @ ''Check types'')"
    unfolding eq str_includes_iff
    by (rule exI[of _ DEFAULT_ANALYSIS_PROMPT], rule exI) simp
  with eq no show ?thesis by blast
qed

section \<open>Properties of the context extractor\<close>

lemma str_includes_slice: "str_includes s (slice s a b)"
proof -
  have "drop a s = take (b - a) (drop a s) @ drop (b - a) (drop a s)"
    by (rule append_take_drop_id[symmetric])
  then have "s = take a s @ slice s a b @ drop (b - a) (drop a s)"
    unfolding slice_def by (metis append_take_drop_id)
  then show ?thesis unfolding str_includes_iff by blast
qed

lemma str_includes_trim: "str_includes s (trim s)"
proof -
  define y where "y = dropWhile is_space s"
  have "rev y = takeWhile is_space (rev y) @ dropWhile is_space (rev y)" by simp
  then have "y = rev (dropWhile is_space (rev y)) @ rev (takeWhile is_space (rev y))"
    by (metis rev_append rev_rev_ident)
  then have "s = takeWhile is_space s @ trim s @ rev (takeWhile is_space (rev y))"
    by (metis takeWhile_dropWhile_id trim_def y_def)
  then show ?thesis unfolding str_includes_iff by blast
qed

lemma str_includes_trans:
  "str_includes s u \<Longrightarrow> str_includes u w \<Longrightarrow> str_includes s w"
proof -
  assume "str_includes s u" "str_includes u w"
  then obtain p q p' q' where "s = p @ u @ q" "u = p' @ w @ q'"
    unfolding str_includes_iff by blast
  then have "s = (p @ p') @ w @ (q' @ q)" by simp
  then show ?thesis unfolding str_includes_iff by blast
qed

lemma match_all_text:
  "m \<in> set (match_all r s from) \<Longrightarrow> str_includes s (text0 m)"
proof (induction r s "from" rule: match_all.induct)
  case (1 r s "from")
  show ?case
  proof (cases "exec r s from")
    case None
    with "1.prems" show ?thesis by (simp add: match_all.simps)
  next
    case (Some m')
    with "1.prems" consider "m = m'"
      | "m \<in> set (match_all r s (if text0 m' = [] then Suc (index m' + length (text0 m'))
                                   else index m' + length (text0 m')))"
      by (subst (asm) match_all.simps) (auto simp: Let_def)
    then show ?thesis
    proof cases
      case 1
      with exec_text[OF Some] str_includes_slice[of s] show ?thesis by metis
    next
      case 2
      from "1.IH"[OF Some refl this] show ?thesis .
    qed
  qed
qed

lemma trimmed_matches_included:
  "list_all (str_includes s) (map (\<lambda>m. trim (text0 m)) (match_all r s from))"
  by (auto simp: list_all_iff intro: str_includes_trans[OF match_all_text str_includes_trim])

lemma typeof_string: "typeof v = ''string'' \<longleftrightarrow> (\<exists>s. v = JStr s)"
  by (cases v) auto

lemma typeof_number: "typeof v = ''number'' \<longleftrightarrow> (\<exists>q. v = JNum q)"
  by (cases v) auto

text \<open>
  Claim C9. \<open>extractModuleContext\<close> throws (the result \<open>Inl\<close>, which no caller turns into a
  default) whenever \<open>typeof content\<close> is not \<open>string\<close> or \<open>typeof functionEndIndex\<close> is not
  \<open>number\<close>. For a string and a number it returns: \<open>fullContext\<close> is \<open>content.slice(0,
  functionEndIndex)\<close>, which for an offset \<open>n\<close> that is a natural number is the first \<open>n\<close>
  characters of the content; \<open>imports\<close> and \<open>declarations\<close> are the trimmed matches of the
  two patterns in that slice, so each of them is a piece of text of the slice.
\<close>

theorem extractModuleContext_contract:
  "(typeof content \<noteq> ''string'' \<or> typeof functionEndIndex \<noteq> ''number'' \<longrightarrow>
      extractModuleContext content functionEndIndex =
        Inl (Error ''Invalid arguments: content must be string and functionEndIndex must be number'')) \<and>
   (\<exists>ctx. extractModuleContext (JStr s) (JNum q) = Inr ctx \<and>
      fullContext ctx = slice_to_num s q \<and>
      imports' ctx = map (\<lambda>m. trim (text0 m)) (match_all importRegex (fullContext ctx) 0) \<and>
      declarations ctx = map (\<lambda>m. trim (text0 m)) (match_all declRegex (fullContext ctx) 0) \<and>
      list_all (str_includes (fullContext ctx)) (imports' ctx) \<and>
      list_all (str_includes (fullContext ctx)) (declarations ctx)) \<and>
   slice_to_num s (of_nat n) = take n s"
proof -
  have bad: "typeof content \<noteq> ''string'' \<or> typeof functionEndIndex \<noteq> ''number'' \<longrightarrow>
      extractModuleContext content functionEndIndex =
        Inl (Error ''Invalid arguments: content must be string and functionEndIndex must be number'')"
    by (cases content; cases functionEndIndex) (simp_all add: extractModuleContext_def)
  have good: "\<exists>ctx. extractModuleContext (JStr s) (JNum q) = Inr ctx \<and>
      fullContext ctx = slice_to_num s q \<and>
      imports' ctx = map (\<lambda>m. trim (text0 m)) (match_all importRegex (fullContext ctx) 0) \<and>
      declarations ctx = map (\<lambda>m. trim (text0 m)) (match_all declRegex (fullContext ctx) 0) \<and>
      list_all (str_includes (fullContext ctx)) (imports' ctx) \<and>
      list_all (str_includes (fullContext ctx)) (declarations ctx)"
    by (simp add: extractModuleContext_def Let_def trimmed_matches_included)
  have "truncate_num (of_nat n) = int n" by (simp add: truncate_num_def)
  then have "slice_to_num s (of_nat n) = take n s"
    by (simp add: slice_to_num_def Let_def min_def)
  with bad good show ?thesis by blast
qed

theorem extractModuleContext_contract_witness:
  "extractModuleContext JNull (JNum 3) =
     Inl (Error ''Invalid arguments: content must be string and functionEndIndex must be number'') \<and>
   extractModuleContext (JStr ''const a = 1; f'') (JStr ''13'') =
     Inl (Error ''Invalid arguments: content must be string and functionEndIndex must be number'') \<and>
   extractModuleContext (JStr ''const a = 1; f'') (JNum 13) =
     Inr \<lparr>imports' = [], declarations = [''const a = 1;''], fullContext = ''const a = 1; ''\<rparr>"
proof -
  have "typeof JNull \<noteq> ''string''" "typeof (JStr ''13'') \<noteq> ''number''" by simp_all
  with extractModuleContext_contract[of JNull "JNum 3"]
    extractModuleContext_contract[of "JStr ''const a = 1; f''" "JStr ''13''"]
  have "extractModuleContext JNull (JNum 3) =
     Inl (Error ''Invalid arguments: content must be string and functionEndIndex must be number'')"
    "extractModuleContext (JStr ''const a = 1; f'') (JStr ''13'') =
     Inl (Error ''Invalid arguments: content must be string and functionEndIndex must be number'')"
    by blast+
  moreover have "extractModuleContext (JStr ''const a = 1; f'') (JNum 13) =
     Inr \<lparr>imports' = [], declarations = [''const a = 1;''], fullContext = ''const a = 1; ''\<rparr>"
    by code_simp
  ultimately show ?thesis by simp
qed

section \<open>Properties of the file generator\<close>


lemma filterE_mem:
  "filterE p xs = Inr ys \<Longrightarrow> y \<in> set ys \<longleftrightarrow> y \<in> set xs \<and> p y = Inr True"
proof (induction xs arbitrary: ys)
  case Nil
  then show ?case by simp
next
  case (Cons x xs)
  from Cons.prems obtain b zs where px: "p x = Inr b" and rest: "filterE p xs = Inr zs"
    and ys: "ys = (if b then x # zs else zs)"
    by (simp split: sum.splits)
  from Cons.IH[OF rest] have IH: "y \<in> set zs \<longleftrightarrow> y \<in> set xs \<and> p y = Inr True" .
  show ?case
  proof (cases b)
    case True
    with px ys IH show ?thesis by auto
  next
    case False
    with px ys IH show ?thesis by auto
  qed
qed

lemma mapE_fails:
  "x \<in> set xs \<Longrightarrow> f x = Inl e \<Longrightarrow> \<exists>e'. mapE f xs = Inl e'"
  by (induction xs) (auto split: sum.splits)




text \<open>
  Claim C10. When a record with a truthy \<open>needsRefactor\<close> has the \<open>refactorPrompt\<close> \<open>null\<close>,
  the consolidated \<open>generateRefactorFile\<close> throws an error whose message starts with
  \<open>Failed to generate refactor file: \<close>, and every file is as it was.
\<close>

theorem generateRefactorFile_null_prompt:
  assumes mem: "result \<in> set analysisResults"
    and flag: "needsRefactor result = Inr True"
    and null: "refactorPrompt result = Inr JNull"
  shows "\<exists>msg. generateRefactorFile P files filePath analysisResults original =
           (Inl (Error (''Failed to generate refactor file: '' @ msg)), files)"
proof (cases "filterE needsRefactor analysisResults")
  case (Inl e)
  then show ?thesis by (simp add: generateRefactorFile_def)
next
  case (Inr flagged)
  define srt where "srt = sort_key (\<lambda>r. startIndex (func r)) flagged"
  from filterE_mem[OF Inr, of result] mem flag have "result \<in> set srt" by (simp add: srt_def)
  then obtain i where i: "i < length srt" "srt ! i = result"
    by (auto simp: in_set_conv_nth)
  then have inzip: "(result, i) \<in> set (zip srt [0 ..< length srt])"
    by (auto simp: in_set_zip)
  have fails: "(\<lambda>(result, i). formatRefactorPrompt result i) (result, i) =
      Inl (TypeError ''Cannot read properties of null (reading 'split')'')"
    using null by (simp add: formatRefactorPrompt_def split_string_def)
  from mapE_fails[of "(result, i)" "zip srt [0 ..< length srt]"
      "\<lambda>(result, i). formatRefactorPrompt result i", OF inzip fails] obtain e where
    e: "mapE (\<lambda>(result, i). formatRefactorPrompt result i) (zip srt [0 ..< length srt]) = Inl e"
    by (elim exE)
  have ne: "length srt \<noteq> 0" using \<open>result \<in> set srt\<close> by auto
  have "generateRefactorFile P files filePath analysisResults original =
      (Inl (Error (''Failed to generate refactor file: '' @ message e)), files)"
    unfolding generateRefactorFile_def Let_def Inr sum.case srt_def[symmetric]
    using e ne by simp
  then show ?thesis by blast
qed

theorem generateRefactorFile_null_prompt_witness:
  "generateRefactorFile plain_paths Map.empty ''a.js''
     [sample_record (JObj [(''needsRefactor'', JBool True), (''refactorPrompt'', JNull)])]
     sample_content =
   (Inl (Error ''Failed to generate refactor file: Cannot read properties of null (reading 'split')''),
    Map.empty)"
proof -
  define result where
    "result = sample_record (JObj [(''needsRefactor'', JBool True), (''refactorPrompt'', JNull)])"
  have "result \<in> set [result]" "needsRefactor result = Inr True" "refactorPrompt result = Inr JNull"
    by (simp_all add: result_def needsRefactor_def refactorPrompt_def get_member_def sample_record_def)
  from generateRefactorFile_null_prompt[OF this, of plain_paths Map.empty "''a.js''" sample_content]
  obtain msg where "generateRefactorFile plain_paths Map.empty ''a.js'' [result] sample_content =
      (Inl (Error (''Failed to generate refactor file: '' @ msg)), Map.empty)" by blast
  moreover have "fst (generateRefactorFile plain_paths Map.empty ''a.js'' [result] sample_content) =
      Inl (Error ''Failed to generate refactor file: Cannot read properties of null (reading 'split')'')"
    unfolding result_def by code_simp
  ultimately show ?thesis unfolding result_def by simp
qed

subsection \<open>The spliced variant\<close>

lemma is_verdict_needsRefactor:
  "is_verdict (analysis r) \<Longrightarrow> \<exists>b. needsRefactor r = Inr b"
  by (cases "analysis r") (auto simp: needsRefactor_def get_member_def)

lemma filterE_total:
  "list_all (\<lambda>x. \<exists>b. p x = Inr b) xs \<Longrightarrow> filterE p xs = Inr (filter (\<lambda>x. p x = Inr True) xs)"
proof (induction xs)
  case Nil
  then show ?case by simp
next
  case (Cons x xs)
  then obtain b where "p x = Inr b" by auto
  with Cons show ?case by (cases b) auto
qed

lemma insert_at_nothing: "insert_at doc i [] = doc"
  by (simp add: insert_at_def slice_def slice_from_def)

lemma splice_step:
  assumes "is_verdict (analysis r)" "needsRefactor r = Inr True"
  shows "splice_loop (r # rest) doc =
         splice_loop rest (insert_at doc (startIndex (func r)) (comment_for r))"
proof (cases "analysis r")
  case (JObj kvs)
  with assms(1) consider s where "get_prop (JObj kvs) ''refactorPrompt'' = JStr s"
    | "get_prop (JObj kvs) ''refactorPrompt'' = JNull"
    by (auto split: jsval.splits)
  then show ?thesis
  proof cases
    case 1
    with JObj have rp: "refactorPrompt r = Inr (JStr s)"
      by (simp add: refactorPrompt_def get_member_def)
    show ?thesis
    proof (cases "s = []")
      case True
      with rp assms(2) show ?thesis by (simp add: comment_for_def insert_at_nothing)
    next
      case False
      with rp assms(2) show ?thesis
        by (simp add: comment_for_def split_string_def refactorComment_def Let_def)
    qed
  next
    case 2
    with JObj have rp: "refactorPrompt r = Inr JNull"
      by (simp add: refactorPrompt_def get_member_def)
    with assms(2) show ?thesis by (simp add: comment_for_def insert_at_nothing)
  qed
qed (use assms in \<open>simp_all\<close>)

lemma splice_loop_foldl:
  "list_all (\<lambda>r. is_verdict (analysis r) \<and> needsRefactor r = Inr True) rs \<Longrightarrow>
   splice_loop rs doc =
     Inr (foldl (\<lambda>t r. insert_at t (startIndex (func r)) (comment_for r)) doc rs)"
proof (induction rs arbitrary: doc)
  case Nil
  then show ?case by simp
next
  case (Cons r rs)
  then have v: "is_verdict (analysis r)" "needsRefactor r = Inr True"
    and rest: "list_all (\<lambda>r. is_verdict (analysis r) \<and> needsRefactor r = Inr True) rs"
    by simp_all
  show ?case
    unfolding splice_step[OF v] Cons.IH[OF rest] by simp
qed

lemma foldr_filter_skip:
  "(\<And>x. x \<in> set xs \<Longrightarrow> \<not> P x \<Longrightarrow> g x = id) \<Longrightarrow> foldr g (filter P xs) a = foldr g xs a"
  by (induction xs) auto

lemma comment_for_unflagged: "needsRefactor r \<noteq> Inr True \<Longrightarrow> comment_for r = []"
  by (simp add: comment_for_def)

text \<open>
  The records in source order, each starting at or after \<open>pos\<close> and inside the content.
\<close>

lemma insertions_weave:
  assumes "sorted_wrt (\<lambda>a b. startIndex (func a) \<le> startIndex (func b)) rs"
    and "list_all (\<lambda>r. pos \<le> startIndex (func r) \<and> startIndex (func r) \<le> length content) rs"
    and "pos \<le> length content"
  shows "foldr (\<lambda>r t. insert_at t (startIndex (func r)) (comment_for r)) rs content =
         take pos content @ weave content pos rs"
  using assms
proof (induction rs arbitrary: pos)
  case Nil
  then show ?case by (simp add: slice_from_def)
next
  case (Cons r rs)
  define s where "s = startIndex (func r)"
  from Cons.prems have s: "pos \<le> s" "s \<le> length content" by (simp_all add: s_def)
  have "list_all (\<lambda>r. s \<le> startIndex (func r) \<and> startIndex (func r) \<le> length content) rs"
    using Cons.prems by (auto simp: list_all_iff s_def)
  moreover have "sorted_wrt (\<lambda>a b. startIndex (func a) \<le> startIndex (func b)) rs"
    using Cons.prems by simp
  ultimately have IH: "foldr (\<lambda>r t. insert_at t (startIndex (func r)) (comment_for r)) rs content =
      take s content @ weave content s rs"
    using Cons.IH[of s] s by simp
  have "insert_at (take s content @ weave content s rs) s (comment_for r) =
      take s content @ comment_for r @ weave content s rs"
    using s by (simp add: insert_at_def slice_def slice_from_def)
  moreover have "take s content = take pos content @ slice content pos s"
    using take_slice[OF s(1), of content] by simp
  ultimately show ?case by (simp add: IH s_def[symmetric])
qed

lemma weave_skip:
  assumes "list_all (\<lambda>r. q \<le> startIndex (func r)) rs" "p \<le> q"
  shows "weave content p rs = slice content p q @ weave content q rs"
proof (cases rs)
  case Nil
  have "slice content p q @ drop q content = drop p content"
    using assms(2)
    by (metis add_diff_cancel_left' append_take_drop_id drop_drop le_Suc_ex slice_def add.commute)
  with Nil show ?thesis by (simp add: slice_from_def)
next
  case (Cons r rs')
  with assms have "q \<le> startIndex (func r)" by simp
  from slice_append[OF assms(2) this, of content] Cons show ?thesis by simp
qed

lemma weave_holds_record:
  assumes "placed content (length content) (map func rs)" "r \<in> set rs"
  shows "\<exists>before after. weave content pos rs = before @ comment_for r @ code (func r) @ after"
  using assms
proof (induction rs arbitrary: pos)
  case Nil
  then show ?case by simp
next
  case (Cons x rs)
  have pl: "placed content (length content) (map func rs)"
    using Cons.prems(1) by (simp add: placed_def)
  show ?case
  proof (cases "r = x")
    case True
    from Cons.prems(1) have x: "startIndex (func x) < endIndex (func x)"
      "code (func x) = slice content (startIndex (func x)) (endIndex (func x))"
      and later: "list_all (\<lambda>y. endIndex (func x) \<le> startIndex (func y)) rs"
      by (auto simp: placed_def list_all_iff)
    from weave_skip[OF later, of "startIndex (func x)" content] x
    have "weave content (startIndex (func x)) rs =
        code (func x) @ weave content (endIndex (func x)) rs" by simp
    then have "weave content pos (x # rs) =
        slice content pos (startIndex (func x)) @ comment_for x @ code (func x) @
        weave content (endIndex (func x)) rs" by simp
    with True show ?thesis by blast
  next
    case False
    with Cons.prems(2) have "r \<in> set rs" by simp
    from Cons.IH[OF pl this, of "startIndex (func x)"] obtain before after where
      "weave content (startIndex (func x)) rs = before @ comment_for r @ code (func r) @ after"
      by blast
    then have "weave content pos (x # rs) =
        (slice content pos (startIndex (func x)) @ comment_for x @ before) @
        comment_for r @ code (func r) @ after" by simp
    then show ?thesis by blast
  qed
qed

lemma sort_descending_by_position:
  assumes "sorted_wrt (\<lambda>a b. startIndex (func a) < startIndex (func b)) (by_position rs)"
  shows "sort_descending rs = rev (by_position rs)"
  unfolding sort_descending_def
proof (rule sort_key_inj_key_eq)
  show "mset rs = mset (rev (by_position rs))" by (simp add: by_position_def)
  have set_eq: "set (by_position rs) = set rs" by (simp add: by_position_def)
  have dist: "distinct (map (\<lambda>r. startIndex (func r)) xs)"
    if "sorted_wrt (\<lambda>a b. startIndex (func a) < startIndex (func b)) xs" for xs :: "('a functionRecord_scheme) analyzed list"
    using that by (induction xs) auto
  show "inj_on (\<lambda>r. - int (startIndex (func r))) (set rs)"
  proof (rule inj_onI)
    fix a b assume a: "a \<in> set rs" and b: "b \<in> set rs"
      and eq: "- int (startIndex (func a)) = - int (startIndex (func b))"
    from eq have "startIndex (func a) = startIndex (func b)" by simp
    with dist[OF assms] a b show "a = b"
      unfolding set_eq[symmetric] by (meson distinct_map inj_onD)
  qed
  have "sorted_wrt (\<lambda>a b. - int (startIndex (func b)) \<le> - int (startIndex (func a)))
          (by_position rs)"
    by (rule sorted_wrt_mono_rel[OF _ assms]) simp
  then show "sorted (map (\<lambda>r. - int (startIndex (func r))) (rev (by_position rs)))"
    by (simp add: sorted_wrt_map sorted_wrt_rev)
qed

text \<open>
  Claim C3, as amended. Let the records come in any order, let them have, put in source order,
  non-empty spans inside the content that do not overlap, each record holding the text of its
  span, and let every analysis be a verdict. Then the spliced \<open>generateRefactorFile\<close> writes,
  and returns the path of, the document \<open>weave\<close> describes for the records in source order:
  the original content in which, right before the \<open>startIndex\<close> of each flagged record whose
  prompt is a non-empty string, the comment block of that prompt stands. A flagged record
  whose prompt is \<open>null\<close> or empty gets no block. In that document every record's block is
  followed at once by the record's \<open>code\<close>, whole.
\<close>

theorem spliced_document:
  assumes pl: "placed content (length content) (map func (by_position analysisResults))"
    and verdicts: "list_all (\<lambda>r. is_verdict (analysis r)) analysisResults"
    and orig: "originalContent original = content"
  shows "generateRefactorFile_old P files filePath analysisResults original =
           (Inr (refactorPathOf P filePath),
            writeFile files (refactorPathOf P filePath)
              (weave content 0 (by_position analysisResults))) \<and>
         list_all (\<lambda>r. \<exists>before after.
                      weave content 0 (by_position analysisResults) =
                        before @ comment_for r @ code (func r) @ after) analysisResults"
proof -
  let ?ins = "\<lambda>r t. insert_at t (startIndex (func r)) (comment_for r)"
  let ?rs = "by_position analysisResults"
  let ?flagged = "filter (\<lambda>r. needsRefactor r = Inr True) ?rs"
  have set_eq: "set ?rs = set analysisResults" by (simp add: by_position_def)
  have verdicts': "list_all (\<lambda>r. is_verdict (analysis r)) ?rs"
    using verdicts by (simp add: list_all_iff set_eq)
  have asc: "sorted_wrt (\<lambda>a b. startIndex (func a) < startIndex (func b)) ?rs"
    using placed_sorted_start[OF pl] by (simp add: sorted_wrt_map)
  have desc: "sort_descending analysisResults = rev ?rs"
    by (rule sort_descending_by_position[OF asc])
  have "list_all (\<lambda>r. \<exists>b. needsRefactor r = Inr b) (rev ?rs)"
    using verdicts' is_verdict_needsRefactor by (auto simp: list_all_iff)
  from filterE_total[OF this]
  have flt: "filterE needsRefactor (sort_descending analysisResults) = Inr (rev ?flagged)"
    by (simp add: desc rev_filter)
  have "list_all (\<lambda>r. is_verdict (analysis r) \<and> needsRefactor r = Inr True) (rev ?flagged)"
    using verdicts' by (auto simp: list_all_iff)
  from splice_loop_foldl[OF this, of content]
  have "splice_loop (rev ?flagged) content = Inr (foldr ?ins ?flagged content)"
    by (simp add: foldr_conv_foldl)
  also have "foldr ?ins ?flagged content = foldr ?ins ?rs content"
    by (rule foldr_filter_skip) (auto simp: comment_for_unflagged insert_at_nothing)
  also have "\<dots> = take 0 content @ weave content 0 ?rs"
  proof (rule insertions_weave)
    show "sorted_wrt (\<lambda>a b. startIndex (func a) \<le> startIndex (func b)) ?rs"
      by (rule sorted_wrt_mono_rel[OF _ asc]) simp
    show "list_all (\<lambda>r. 0 \<le> startIndex (func r) \<and> startIndex (func r) \<le> length content) ?rs"
      using pl by (auto simp: placed_def list_all_iff)
  qed simp
  finally have loop: "splice_loop (rev ?flagged) content = Inr (weave content 0 ?rs)"
    by simp
  have "generateRefactorFile_old P files filePath analysisResults original =
           (Inr (refactorPathOf P filePath),
            writeFile files (refactorPathOf P filePath) (weave content 0 ?rs))"
    by (simp add: generateRefactorFile_old_def flt orig loop Let_def)
  moreover have "list_all (\<lambda>r. \<exists>before after.
                      weave content 0 ?rs =
                        before @ comment_for r @ code (func r) @ after) analysisResults"
    using weave_holds_record[OF pl] by (simp add: list_all_iff set_eq)
  ultimately show ?thesis by simp
qed

theorem spliced_document_witness:
  "generateRefactorFile_old plain_paths Map.empty ''a.js''
     [record_g (JObj [(''needsRefactor'', JBool True), (''refactorPrompt'', JStr ''Split it.'')]),
      record_f (JObj [(''needsRefactor'', JBool True), (''refactorPrompt'', JStr ''Add checks.'')])]
     two_functions =
   (Inr ''a.refactor.js'',
    [''a.refactor.js'' \<mapsto>
       ''\<newline>/**\<newline> * REFACTOR:\<newline> * Add checks.\<newline> */\<newline>function f(){} \<newline>/**\<newline> * REFACTOR:\<newline> * Split it.\<newline> */\<newline>function g(){}''])"
proof -
  define f where "f = record_f (JObj [(''needsRefactor'', JBool True),
                           (''refactorPrompt'', JStr ''Add checks.'')])"
  define g where "g = record_g (JObj [(''needsRefactor'', JBool True),
                           (''refactorPrompt'', JStr ''Split it.'')])"
  have pos: "by_position [g, f] = [f, g]"
    by (simp add: by_position_def f_def g_def record_f_def record_g_def)
  have "placed ''function f(){} function g(){}'' (length ''function f(){} function g(){}'')
          (map func (by_position [g, f]))"
    unfolding pos by (simp add: placed_def f_def g_def record_f_def record_g_def slice_def)
  moreover have "list_all (\<lambda>r. is_verdict (analysis r)) [g, f]"
    by (simp add: f_def g_def record_f_def record_g_def)
  moreover have "originalContent two_functions = ''function f(){} function g(){}''"
    by (simp add: two_functions_def)
  ultimately have "generateRefactorFile_old plain_paths Map.empty ''a.js'' [g, f] two_functions =
           (Inr (refactorPathOf plain_paths ''a.js''),
            writeFile Map.empty (refactorPathOf plain_paths ''a.js'')
              (weave ''function f(){} function g(){}'' 0 (by_position [g, f])))"
    using spliced_document[of "''function f(){} function g(){}''" "[g, f]" two_functions
        plain_paths Map.empty "''a.js''"]
    by blast
  moreover have "refactorPathOf plain_paths ''a.js'' = ''a.refactor.js''"
    by (simp add: refactorPathOf_def plain_paths_def Let_def)
  moreover have "weave ''function f(){} function g(){}'' 0 [f, g] =
      ''\<newline>/**\<newline> * REFACTOR:\<newline> * Add checks.\<newline> */\<newline>function f(){} \<newline>/**\<newline> * REFACTOR:\<newline> * Split it.\<newline> */\<newline>function g(){}''"
    unfolding f_def g_def by code_simp
  ultimately show ?thesis by (simp add: f_def[symmetric] g_def[symmetric] pos writeFile_def)
qed

text \<open>
  Claim C3 as stated fails for a flagged record whose prompt is \<open>null\<close>, which the loop
  skips: the function is flagged and the document has no comment block before it.
\<close>

theorem flagged_without_prompt_gets_no_block:
  "generateRefactorFile_old plain_paths Map.empty ''a.js''
     [sample_record (JObj [(''needsRefactor'', JBool True), (''refactorPrompt'', JNull)])]
     sample_content =
   (Inr ''a.refactor.js'', [''a.refactor.js'' \<mapsto> ''x function f(){}''])"
  by (simp add: generateRefactorFile_old_def sort_descending_def refactorPathOf_def
      plain_paths_def sample_content_def sample_record_def writeFile_def Let_def
      needsRefactor_def refactorPrompt_def get_member_def)

section \<open>Properties of the analyser\<close>

lemma settle_length: "length (settle completion values slots) = length slots"
  by (induction completion arbitrary: slots) auto

lemma settle_nth:
  "length slots = length values \<Longrightarrow> i < length values \<Longrightarrow>
   settle completion values slots ! i =
     (if i \<in> set completion then Some (values ! i) else slots ! i)"
proof (induction completion arbitrary: slots)
  case Nil
  then show ?case by simp
next
  case (Cons j completion)
  show ?case
  proof (cases "j < length values")
    case True
    with Cons.prems Cons.IH[of "slots[j := Some (values ! j)]"] show ?thesis
      by (auto simp: nth_list_update)
  next
    case False
    with Cons.prems Cons.IH[of slots] show ?thesis by auto
  qed
qed

lemma promise_all_input_order:
  assumes "{0 ..< length values} \<subseteq> set completion"
  shows "promise_all completion values = Some values"
proof -
  let ?slots = "settle completion values (replicate (length values) None)"
  have len: "length ?slots = length values" by (simp add: settle_length)
  have nth: "?slots ! i = Some (values ! i)" if "i < length values" for i
    using settle_nth[of "replicate (length values) None" "values" i completion] that assms
    by auto
  have "?slots = map Some values"
    by (rule nth_equalityI) (simp_all add: len nth)
  then show ?thesis
    by (simp add: promise_all_def Let_def list_all_iff comp_def)
qed

lemma func_analyzeFunction: "func (analyzeFunction chat analysisPrompt functionData) = functionData"
  by (simp add: analyzeFunction_def split: sum.splits option.splits)

lemma analyzeFunctionBatch_guard:
  "functionBatch = [] \<or> analysisPrompt = [] \<Longrightarrow>
   analyzeFunctionBatch chat completion functionBatch analysisPrompt =
     Some (Inl (Error ''Invalid arguments: functionBatch must be non-empty array and analysisPrompt must be string''))"
  by (auto simp: analyzeFunctionBatch_def)

lemma analyzeFunctionBatch_resolves:
  assumes "functionBatch \<noteq> []" and "analysisPrompt \<noteq> []"
    and "{0 ..< length functionBatch} \<subseteq> set completion"
  shows "analyzeFunctionBatch chat completion functionBatch analysisPrompt =
           Some (Inr (map (analyzeFunction chat analysisPrompt) functionBatch))"
proof -
  have "promise_all completion (map (analyzeFunction chat analysisPrompt) functionBatch) =
      Some (map (analyzeFunction chat analysisPrompt) functionBatch)"
    by (rule promise_all_input_order) (use assms(3) in simp)
  then show ?thesis using assms(1,2) by (simp add: analyzeFunctionBatch_def)
qed

text \<open>
  Claim C7, as amended. For an empty batch, and for an empty prompt, \<open>analyzeFunctionBatch\<close>
  throws the error \<open>Invalid arguments: ...\<close> and returns no record. For a batch that is not
  empty, a prompt that is not empty and any order of completion in which every analysis
  completes, it resolves with one analysed record per function of the batch, in the order of
  the batch: the record at each position is the analysis of the function at that position.
\<close>

theorem analyzeFunctionBatch_input_order:
  "(functionBatch = [] \<or> analysisPrompt = [] \<longrightarrow>
      analyzeFunctionBatch chat completion functionBatch analysisPrompt =
        Some (Inl (Error ''Invalid arguments: functionBatch must be non-empty array and analysisPrompt must be string''))) \<and>
   (functionBatch \<noteq> [] \<and> analysisPrompt \<noteq> [] \<and>
    {0 ..< length functionBatch} \<subseteq> set completion \<longrightarrow>
      (\<exists>results.
         analyzeFunctionBatch chat completion functionBatch analysisPrompt = Some (Inr results) \<and>
         results = map (analyzeFunction chat analysisPrompt) functionBatch \<and>
         length results = length functionBatch \<and>
         map func results = functionBatch))"
proof (intro conjI impI)
  assume "functionBatch = [] \<or> analysisPrompt = []"
  then show "analyzeFunctionBatch chat completion functionBatch analysisPrompt =
        Some (Inl (Error ''Invalid arguments: functionBatch must be non-empty array and analysisPrompt must be string''))"
    by (rule analyzeFunctionBatch_guard)
next
  assume ok: "functionBatch \<noteq> [] \<and> analysisPrompt \<noteq> [] \<and>
    {0 ..< length functionBatch} \<subseteq> set completion"
  then have "analyzeFunctionBatch chat completion functionBatch analysisPrompt =
           Some (Inr (map (analyzeFunction chat analysisPrompt) functionBatch))"
    by (intro analyzeFunctionBatch_resolves) simp_all
  moreover have "map func (map (analyzeFunction chat analysisPrompt) functionBatch) = functionBatch"
    by (simp add: comp_def func_analyzeFunction)
  ultimately show "\<exists>results.
         analyzeFunctionBatch chat completion functionBatch analysisPrompt = Some (Inr results) \<and>
         results = map (analyzeFunction chat analysisPrompt) functionBatch \<and>
         length results = length functionBatch \<and>
         map func results = functionBatch"
    by simp
qed

theorem analyzeFunctionBatch_input_order_witness:
  "map_option (map_sum message (map func))
     (analyzeFunctionBatch (\<lambda>messages. Inr ''{}'') [1, 0]
        [sample_function, sample_function\<lparr>name := Some ''g''\<rparr>] ''Analyze'') =
   Some (Inr [sample_function, sample_function\<lparr>name := Some ''g''\<rparr>]) \<and>
   analyzeFunctionBatch (\<lambda>messages. Inr ''{}'') [1, 0] ([] :: functionRecordCtx list) ''Analyze'' =
     Some (Inl (Error ''Invalid arguments: functionBatch must be non-empty array and analysisPrompt must be string''))"
proof -
  let ?batch = "[sample_function, sample_function\<lparr>name := Some ''g''\<rparr>]"
  let ?chat = "(\<lambda>messages. Inr ''{}'') :: chat"
  have ok: "?batch \<noteq> [] \<and> ''Analyze'' \<noteq> [] \<and> {0 ..< length ?batch} \<subseteq> set [1, 0]"
    by auto
  from analyzeFunctionBatch_input_order
         [where functionBatch = ?batch and analysisPrompt = "''Analyze''" and chat = ?chat
            and completion = "[1, 0]", THEN conjunct2, THEN mp, OF ok]
  have one: "map_option (map_sum message (map func))
     (analyzeFunctionBatch ?chat [1, 0] ?batch ''Analyze'') = Some (Inr ?batch)"
    by auto
  have "([] :: functionRecordCtx list) = [] \<or> ''Analyze'' = []" by simp
  from analyzeFunctionBatch_input_order
         [where functionBatch = "[]" and analysisPrompt = "''Analyze''" and chat = ?chat
            and completion = "[1, 0]", THEN conjunct1, THEN mp, OF this]
  have two: "analyzeFunctionBatch ?chat [1, 0] ([] :: functionRecordCtx list) ''Analyze'' =
     Some (Inl (Error ''Invalid arguments: functionBatch must be non-empty array and analysisPrompt must be string''))" .
  from one two show ?thesis by blast
qed

text \<open>
  Claim C7 as stated fails on the argument check of \<open>analyzeFunctionBatch\<close>: with an empty
  prompt it throws, and returns no record for the one function of the batch.
\<close>

theorem analyzeFunctionBatch_rejects_empty_prompt:
  "analyzeFunctionBatch (\<lambda>messages. Inr ''{}'') [0] [sample_function] [] =
     Some (Inl (Error ''Invalid arguments: functionBatch must be non-empty array and analysisPrompt must be string''))"
  by (simp add: analyzeFunctionBatch_def)

subsection \<open>The pattern \<open>/{[^]*}/\<close> is the text from the first \<open>{\<close> to the last \<open>}\<close>\<close>

fun last_try :: "'a cont \<Rightarrow> 'a cont" where
  \<comment> \<open>the continuation at the shortest rest of the input on which it succeeds\<close>
  "last_try k [] c = k [] c"
| "last_try k (x # t) c = (case last_try k t c of Some r \<Rightarrow> Some r | None \<Rightarrow> k (x # t) c)"

lemma star_any_char:
  "length s \<le> n \<Longrightarrow> star_greedy (rx any_char) k n s c = last_try k s c"
proof (induction n arbitrary: s)
  case 0
  then show ?case by simp
next
  case (Suc n)
  show ?case
  proof (cases s)
    case Nil
    then show ?thesis by (simp add: any_char_def)
  next
    case (Cons x t)
    with Suc.prems have "length t \<le> n" by simp
    from Suc.IH[OF this] Cons show ?thesis by (simp add: any_char_def)
  qed
qed

definition close_here :: "string \<Rightarrow> (string \<times> captures) cont" where
  \<comment> \<open>what follows \<open>[^]*\<close> in a match that started at the front of \<open>s\<close>\<close>
  "close_here s = rx (Seq (lit ''}'') Eps) (\<lambda>t c. Some (take (length s - length t) s, c))"

lemma match_here_jsonRegex:
  "match_here jsonRegex s =
     (case s of
        [] \<Rightarrow> None
      | x # rest \<Rightarrow> if x = CHR ''{'' then last_try (close_here s) rest [] else None)"
proof (cases s)
  case Nil
  then show ?thesis by (simp add: match_here_def jsonRegex_def seqs_def lit_def)
next
  case (Cons x rest)
  then show ?thesis
    by (simp add: match_here_def jsonRegex_def seqs_def lit_def star_any_char close_here_def)
qed

lemma close_here_simps:
  "close_here s [] c = None"
  "close_here s (y # t) c =
     (if y = CHR ''}'' then Some (take (length s - length t) s, c) else None)"
  by (simp_all add: close_here_def lit_def)

lemma last_try_none: "CHR ''}'' \<notin> set t \<Longrightarrow> last_try (close_here s) t c = None"
  by (induction t) (auto simp: close_here_simps)

lemma last_try_last:
  "CHR ''}'' \<notin> set after \<Longrightarrow>
   last_try (close_here s) (mid @ CHR ''}'' # after) c =
     Some (take (length s - length after) s, c)"
proof (induction mid)
  case Nil
  then show ?case by (simp add: close_here_simps last_try_none)
next
  case (Cons x mid)
  then show ?case by simp
qed

lemma search_jsonRegex_no_close: "CHR ''}'' \<notin> set s \<Longrightarrow> search jsonRegex i s = None"
proof (induction s arbitrary: i)
  case Nil
  then show ?case by (simp add: match_here_jsonRegex)
next
  case (Cons x s)
  then show ?case by (simp add: match_here_jsonRegex last_try_none)
qed

lemma search_jsonRegex_skip:
  "CHR ''{'' \<notin> set pre \<Longrightarrow> search jsonRegex i (pre @ s) = search jsonRegex (i + length pre) s"
proof (induction pre arbitrary: i)
  case Nil
  then show ?case by simp
next
  case (Cons x pre)
  then show ?case by (auto simp: match_here_jsonRegex)
qed

lemma search_jsonRegex_no_open: "CHR ''{'' \<notin> set s \<Longrightarrow> search jsonRegex i s = None"
proof (induction s arbitrary: i)
  case Nil
  then show ?case by (simp add: match_here_jsonRegex)
next
  case (Cons x s)
  then show ?case by (auto simp: match_here_jsonRegex)
qed

lemma exec_jsonRegex_found:
  assumes "CHR ''{'' \<notin> set before" "CHR ''}'' \<notin> set after"
  shows "exec jsonRegex (before @ CHR ''{'' # mid @ CHR ''}'' # after) 0 =
     Some \<lparr>index = length before, text0 = CHR ''{'' # mid @ ''}'', groups = []\<rparr>"
proof -
  let ?s = "CHR ''{'' # mid @ CHR ''}'' # after"
  have "match_here jsonRegex ?s = Some (take (length ?s - length after) ?s, [])"
    using last_try_last[OF assms(2), of ?s mid "[]"] by (simp add: match_here_jsonRegex)
  moreover have "take (length ?s - length after) ?s = CHR ''{'' # mid @ ''}''" by simp
  ultimately have "search jsonRegex (length before) ?s =
      Some \<lparr>index = length before, text0 = CHR ''{'' # mid @ ''}'', groups = []\<rparr>"
    by simp
  with search_jsonRegex_skip[OF assms(1), of 0 ?s] show ?thesis by (simp add: exec_def)
qed

lemma exec_jsonRegex_none:
  assumes "\<And>before mid after. analysisResult \<noteq> before @ CHR ''{'' # mid @ CHR ''}'' # after"
  shows "exec jsonRegex analysisResult 0 = None"
proof (cases "CHR ''{'' \<in> set analysisResult")
  case False
  then show ?thesis by (simp add: exec_def search_jsonRegex_no_open)
next
  case True
  then obtain before rest where split: "analysisResult = before @ CHR ''{'' # rest"
    and first: "CHR ''{'' \<notin> set before"
    by (meson split_list_first)
  have "CHR ''}'' \<notin> set rest"
  proof
    assume "CHR ''}'' \<in> set rest"
    then obtain mid after where "rest = mid @ CHR ''}'' # after" by (meson split_list)
    with split assms show False by blast
  qed
  then have "search jsonRegex (length before) (CHR ''{'' # rest) = None"
    by (simp add: match_here_jsonRegex last_try_none search_jsonRegex_no_close)
  with search_jsonRegex_skip[OF first, of 0 "CHR ''{'' # rest"] split show ?thesis
    by (simp add: exec_def)
qed

lemma analysis_analyzeFunction_rejected:
  "chat (analysisMessages analysisPrompt functionData) = Inl e \<Longrightarrow>
   analysis (analyzeFunction chat analysisPrompt functionData) = default_analysis"
  by (simp add: analyzeFunction_def)

lemma analysis_analyzeFunction_no_braces:
  "chat (analysisMessages analysisPrompt functionData) = Inr analysisResult \<Longrightarrow>
   (\<And>before mid after. analysisResult \<noteq> before @ CHR ''{'' # mid @ CHR ''}'' # after) \<Longrightarrow>
   analysis (analyzeFunction chat analysisPrompt functionData) = default_analysis"
  by (simp add: analyzeFunction_def exec_jsonRegex_none)

lemma analysis_analyzeFunction_braces:
  "chat (analysisMessages analysisPrompt functionData) = Inr (before @ CHR ''{'' # mid @ CHR ''}'' # after) \<Longrightarrow>
   CHR ''{'' \<notin> set before \<Longrightarrow> CHR ''}'' \<notin> set after \<Longrightarrow>
   analysis (analyzeFunction chat analysisPrompt functionData) =
     (case JSON_parse (CHR ''{'' # mid @ ''}'') of Inl e \<Rightarrow> default_analysis | Inr v \<Rightarrow> v)"
  by (simp add: analyzeFunction_def exec_jsonRegex_found split: sum.splits)

lemma analyzeFunctionBatch_verdicts:
  assumes "functionBatch \<noteq> []" and "analysisPrompt \<noteq> []"
    and "{0 ..< length functionBatch} \<subseteq> set completion"
  shows "\<exists>results.
      analyzeFunctionBatch chat completion functionBatch analysisPrompt = Some (Inr results) \<and>
      length results = length functionBatch \<and>
      (\<forall>i < length functionBatch.
         func (results ! i) = functionBatch ! i \<and>
         (case chat (analysisMessages analysisPrompt (functionBatch ! i)) of
            Inl e \<Rightarrow> analysis (results ! i) = default_analysis
          | Inr analysisResult \<Rightarrow>
              ((\<forall>before mid after. analysisResult \<noteq> before @ CHR ''{'' # mid @ CHR ''}'' # after) \<longrightarrow>
                 analysis (results ! i) = default_analysis) \<and>
              (\<forall>before mid after.
                 analysisResult = before @ CHR ''{'' # mid @ CHR ''}'' # after \<and>
                 CHR ''{'' \<notin> set before \<and> CHR ''}'' \<notin> set after \<longrightarrow>
                 analysis (results ! i) =
                   (case JSON_parse (CHR ''{'' # mid @ ''}'') of
                      Inl e \<Rightarrow> default_analysis
                    | Inr v \<Rightarrow> v))))"
proof -
  let ?results = "map (analyzeFunction chat analysisPrompt) functionBatch"
  have run:
    "analyzeFunctionBatch chat completion functionBatch analysisPrompt = Some (Inr ?results)"
    by (rule analyzeFunctionBatch_resolves[OF assms])
  have each: "func (?results ! i) = functionBatch ! i \<and>
         (case chat (analysisMessages analysisPrompt (functionBatch ! i)) of
            Inl e \<Rightarrow> analysis (?results ! i) = default_analysis
          | Inr analysisResult \<Rightarrow>
              ((\<forall>before mid after. analysisResult \<noteq> before @ CHR ''{'' # mid @ CHR ''}'' # after) \<longrightarrow>
                 analysis (?results ! i) = default_analysis) \<and>
              (\<forall>before mid after.
                 analysisResult = before @ CHR ''{'' # mid @ CHR ''}'' # after \<and>
                 CHR ''{'' \<notin> set before \<and> CHR ''}'' \<notin> set after \<longrightarrow>
                 analysis (?results ! i) =
                   (case JSON_parse (CHR ''{'' # mid @ ''}'') of
                      Inl e \<Rightarrow> default_analysis
                    | Inr v \<Rightarrow> v)))" if "i < length functionBatch" for i
  proof (cases "chat (analysisMessages analysisPrompt (functionBatch ! i))")
    case (Inl e)
    with that show ?thesis
      by (simp add: func_analyzeFunction analysis_analyzeFunction_rejected)
  next
    case (Inr analysisResult)
    have "(\<forall>before mid after. analysisResult \<noteq> before @ CHR ''{'' # mid @ CHR ''}'' # after) \<longrightarrow>
        analysis (analyzeFunction chat analysisPrompt (functionBatch ! i)) = default_analysis"
      using analysis_analyzeFunction_no_braces[of chat analysisPrompt "functionBatch ! i" analysisResult, OF Inr]
      by blast
    moreover have "\<forall>before mid after.
        analysisResult = before @ CHR ''{'' # mid @ CHR ''}'' # after \<and>
        CHR ''{'' \<notin> set before \<and> CHR ''}'' \<notin> set after \<longrightarrow>
        analysis (analyzeFunction chat analysisPrompt (functionBatch ! i)) =
          (case JSON_parse (CHR ''{'' # mid @ ''}'') of Inl e \<Rightarrow> default_analysis | Inr v \<Rightarrow> v)"
      using analysis_analyzeFunction_braces[of chat analysisPrompt "functionBatch ! i"] Inr
      by blast
    ultimately show ?thesis using that Inr by (simp add: func_analyzeFunction)
  qed
  show ?thesis
    by (rule exI[of _ ?results]) (use run each in simp)
qed

text \<open>
  Claim C2, as amended. For an empty batch, and for an empty prompt, \<open>analyzeFunctionBatch\<close>
  throws the error \<open>Invalid arguments: ...\<close>. For a batch and a prompt that are not empty it
  resolves with one record per function, whatever the answers are. The analysis of a function
  is the default verdict when the chat call fails, when the answer has no \<open>{\<close> with a \<open>}\<close>
  after it, and when the text from the first \<open>{\<close> to the last \<open>}\<close> is not JSON. When that
  text is JSON, the analysis is the parsed value as it is, whatever its keys are.
\<close>

theorem analyzeFunctionBatch_failures_default:
  "(functionBatch = [] \<or> analysisPrompt = [] \<longrightarrow>
      analyzeFunctionBatch chat completion functionBatch analysisPrompt =
        Some (Inl (Error ''Invalid arguments: functionBatch must be non-empty array and analysisPrompt must be string''))) \<and>
   (functionBatch \<noteq> [] \<and> analysisPrompt \<noteq> [] \<and>
    {0 ..< length functionBatch} \<subseteq> set completion \<longrightarrow>
      (\<exists>results.
      analyzeFunctionBatch chat completion functionBatch analysisPrompt = Some (Inr results) \<and>
      length results = length functionBatch \<and>
      (\<forall>i < length functionBatch.
         func (results ! i) = functionBatch ! i \<and>
         (case chat (analysisMessages analysisPrompt (functionBatch ! i)) of
            Inl e \<Rightarrow> analysis (results ! i) = default_analysis
          | Inr analysisResult \<Rightarrow>
              ((\<forall>before mid after. analysisResult \<noteq> before @ CHR ''{'' # mid @ CHR ''}'' # after) \<longrightarrow>
                 analysis (results ! i) = default_analysis) \<and>
              (\<forall>before mid after.
                 analysisResult = before @ CHR ''{'' # mid @ CHR ''}'' # after \<and>
                 CHR ''{'' \<notin> set before \<and> CHR ''}'' \<notin> set after \<longrightarrow>
                 analysis (results ! i) =
                   (case JSON_parse (CHR ''{'' # mid @ ''}'') of
                      Inl e \<Rightarrow> default_analysis
                    | Inr v \<Rightarrow> v))))))"
proof (intro conjI impI)
  assume "functionBatch = [] \<or> analysisPrompt = []"
  then show "analyzeFunctionBatch chat completion functionBatch analysisPrompt =
        Some (Inl (Error ''Invalid arguments: functionBatch must be non-empty array and analysisPrompt must be string''))"
    by (rule analyzeFunctionBatch_guard)
next
  assume "functionBatch \<noteq> [] \<and> analysisPrompt \<noteq> [] \<and>
    {0 ..< length functionBatch} \<subseteq> set completion"
  then show "\<exists>results.
      analyzeFunctionBatch chat completion functionBatch analysisPrompt = Some (Inr results) \<and>
      length results = length functionBatch \<and>
      (\<forall>i < length functionBatch.
         func (results ! i) = functionBatch ! i \<and>
         (case chat (analysisMessages analysisPrompt (functionBatch ! i)) of
            Inl e \<Rightarrow> analysis (results ! i) = default_analysis
          | Inr analysisResult \<Rightarrow>
              ((\<forall>before mid after. analysisResult \<noteq> before @ CHR ''{'' # mid @ CHR ''}'' # after) \<longrightarrow>
                 analysis (results ! i) = default_analysis) \<and>
              (\<forall>before mid after.
                 analysisResult = before @ CHR ''{'' # mid @ CHR ''}'' # after \<and>
                 CHR ''{'' \<notin> set before \<and> CHR ''}'' \<notin> set after \<longrightarrow>
                 analysis (results ! i) =
                   (case JSON_parse (CHR ''{'' # mid @ ''}'') of
                      Inl e \<Rightarrow> default_analysis
                    | Inr v \<Rightarrow> v))))"
    by (intro analyzeFunctionBatch_verdicts) simp_all
qed

theorem analyzeFunctionBatch_failures_default_witness:
  "map_option (map_sum message (map analysis))
     (analyzeFunctionBatch sample_chat [1, 0]
        [sample_function, sample_function\<lparr>name := Some ''g'', code := ''function g(){}''\<rparr>]
        ''Analyze'') =
   Some (Inr [default_analysis,
              JObj [(''needsRefactor'', JBool True), (''refactorPrompt'', JStr ''Split it.'')]]) \<and>
   analyzeFunctionBatch sample_chat [0] ([] :: functionRecordCtx list) ''Analyze'' =
     Some (Inl (Error ''Invalid arguments: functionBatch must be non-empty array and analysisPrompt must be string''))"
proof -
  let ?batch = "[sample_function, sample_function\<lparr>name := Some ''g'', code := ''function g(){}''\<rparr>]"
  have ok: "?batch \<noteq> [] \<and> ''Analyze'' \<noteq> [] \<and> {0 ..< length ?batch} \<subseteq> set [1, 0]"
    by auto
  from analyzeFunctionBatch_failures_default
         [where functionBatch = ?batch and analysisPrompt = "''Analyze''" and chat = sample_chat
            and completion = "[1, 0]", THEN conjunct2, THEN mp, OF ok]
  obtain results where
    "analyzeFunctionBatch sample_chat [1, 0] ?batch ''Analyze'' = Some (Inr results)"
    "length results = length ?batch" by blast
  moreover have "map (\<lambda>f. analysis (analyzeFunction sample_chat ''Analyze'' f)) ?batch =
      [default_analysis,
       JObj [(''needsRefactor'', JBool True), (''refactorPrompt'', JStr ''Split it.'')]]"
    by code_simp
  moreover have "promise_all [1, 0] (map (analyzeFunction sample_chat ''Analyze'') ?batch) =
      Some (map (analyzeFunction sample_chat ''Analyze'') ?batch)"
    by (rule promise_all_input_order) auto
  then have "analyzeFunctionBatch sample_chat [1, 0] ?batch ''Analyze'' =
      Some (Inr (map (analyzeFunction sample_chat ''Analyze'') ?batch))"
    by (simp add: analyzeFunctionBatch_def)
  ultimately have one: "map_option (map_sum message (map analysis))
     (analyzeFunctionBatch sample_chat [1, 0] ?batch ''Analyze'') =
   Some (Inr [default_analysis,
              JObj [(''needsRefactor'', JBool True), (''refactorPrompt'', JStr ''Split it.'')]])"
    by (simp add: comp_def)
  have "([] :: functionRecordCtx list) = [] \<or> ''Analyze'' = []" by simp
  from analyzeFunctionBatch_failures_default
         [where functionBatch = "[]" and analysisPrompt = "''Analyze''" and chat = sample_chat
            and completion = "[0]", THEN conjunct1, THEN mp, OF this]
  have two: "analyzeFunctionBatch sample_chat [0] ([] :: functionRecordCtx list) ''Analyze'' =
     Some (Inl (Error ''Invalid arguments: functionBatch must be non-empty array and analysisPrompt must be string''))" .
  from one two show ?thesis by blast
qed

text \<open>
  Claim C2 as stated fails where the answer is JSON without the two keys, or with a key of
  another type: nothing checks the keys, and the analysis is the parsed object, not the
  default.
\<close>

theorem unchecked_keys_are_kept:
  \<open>map_option (map_sum message (map analysis))
     (analyzeFunctionBatch (\<lambda>messages. Inr ''{"needsRefactor": "yes"}'') [0] [sample_function]
        ''Analyze'') =
   Some (Inr [JObj [(''needsRefactor'', JStr ''yes'')]]) \<and>
   JObj [(''needsRefactor'', JStr ''yes'')] \<noteq> default_analysis\<close>
proof -
  have \<open>analysis (analyzeFunction (\<lambda>messages. Inr ''{"needsRefactor": "yes"}'') ''Analyze''
          sample_function) = JObj [(''needsRefactor'', JStr ''yes'')]\<close>
    by code_simp
  moreover have \<open>promise_all [0]
      (map (analyzeFunction (\<lambda>messages. Inr ''{"needsRefactor": "yes"}'') ''Analyze'') [sample_function]) =
      Some (map (analyzeFunction (\<lambda>messages. Inr ''{"needsRefactor": "yes"}'') ''Analyze'') [sample_function])\<close>
    by (rule promise_all_input_order) auto
  ultimately show ?thesis
    by (simp add: analyzeFunctionBatch_def default_analysis_def)
qed

subsection \<open>The older analyser\<close>








end
